theory Spec2Isabelle
  imports Complex_Main "HOL-Library.Word"
begin

unbundle bit_operations_syntax

section \<open>Data model\<close>

text \<open>
  The Python exceptions that the modelled lines of \<^verbatim>\<open>sp.py\<close> can raise: the scalar
  division \<^verbatim>\<open>tau1 / (tau1 - tau2)\<close>, the range check of \<^verbatim>\<open>np.random.randint\<close>
  and the shape check of array addition, and indexing an array out of bounds.
\<close>

datatype py_error = ZeroDivisionError | ValueError | IndexError

text \<open>Integer arrays are \<^verbatim>\<open>int64\<close> arrays: elements wrap around at 64 bits.\<close>

type_synonym int64 = "64 word"

text \<open>
  A \<^verbatim>\<open>float64\<close> array element: a finite value, carried as a real, or one of the
  special values, which are kept because numpy array arithmetic does not raise on a
  division by zero: it yields infinities and NaN and goes on. The sign of zero is not
  modelled. The primitives of the next section compute on finite values exactly; the
  section on float64 arithmetic below adds rounding and overflow.
\<close>

datatype float64 = Fin real | PInf | NInf | NaN

text \<open>
  The pseudorandom source: the raw draws that the generator will deliver, in order.
  Consuming \<open>n\<close> draws leaves the source shifted by \<open>n\<close>.
\<close>

type_synonym rng = "nat \<Rightarrow> nat"

section \<open>Float and array primitives\<close>

fun fneg :: "float64 \<Rightarrow> float64" where
  "fneg (Fin a) = Fin (- a)"
| "fneg PInf = NInf"
| "fneg NInf = PInf"
| "fneg NaN = NaN"

text \<open>An array element divided by a Python scalar (\<^verbatim>\<open>arr / tau\<close>).\<close>

fun fdiv :: "float64 \<Rightarrow> real \<Rightarrow> float64" where
  "fdiv (Fin a) t =
     (if t = 0 then (if a = 0 then NaN else if 0 < a then PInf else NInf)
      else Fin (a / t))"
| "fdiv PInf t = (if t < 0 then NInf else PInf)"
| "fdiv NInf t = (if t < 0 then PInf else NInf)"
| "fdiv NaN t = NaN"

fun fexp :: "float64 \<Rightarrow> float64" where
  "fexp (Fin a) = Fin (exp a)"
| "fexp PInf = PInf"
| "fexp NInf = Fin 0"
| "fexp NaN = NaN"

fun fsub :: "float64 \<Rightarrow> float64 \<Rightarrow> float64" where
  "fsub (Fin a) (Fin b) = Fin (a - b)"
| "fsub NaN y = NaN"
| "fsub x NaN = NaN"
| "fsub PInf PInf = NaN"
| "fsub NInf NInf = NaN"
| "fsub PInf y = PInf"
| "fsub NInf y = NInf"
| "fsub x PInf = NInf"
| "fsub x NInf = PInf"

text \<open>A Python scalar times an array element (\<^verbatim>\<open>c * arr\<close>).\<close>

fun fscale :: "real \<Rightarrow> float64 \<Rightarrow> float64" where
  "fscale c (Fin a) = Fin (c * a)"
| "fscale c NaN = NaN"
| "fscale c PInf = (if c = 0 then NaN else if 0 < c then PInf else NInf)"
| "fscale c NInf = (if c = 0 then NaN else if 0 < c then NInf else PInf)"

text \<open>Truncation toward zero, as \<^verbatim>\<open>int(x)\<close> and \<^verbatim>\<open>.astype(int)\<close> do.\<close>

definition trunc_real :: "real \<Rightarrow> int" where
  "trunc_real a = (if 0 \<le> a then \<lfloor>a\<rfloor> else \<lceil>a\<rceil>)"

text \<open>
  \<^verbatim>\<open>.astype(int)\<close> on one element. A value that has no \<^verbatim>\<open>int64\<close> (NaN, an
  infinity, a finite value out of range) is cast to the minimal \<^verbatim>\<open>int64\<close>, which is what
  the conversion instruction of x86-64 delivers.
\<close>

fun astype_int :: "float64 \<Rightarrow> int64" where
  "astype_int (Fin a) =
     (if - (2 ^ 63) \<le> trunc_real a \<and> trunc_real a < 2 ^ 63
      then word_of_int (trunc_real a) else word_of_int (- (2 ^ 63)))"
| "astype_int PInf = word_of_int (- (2 ^ 63))"
| "astype_int NInf = word_of_int (- (2 ^ 63))"
| "astype_int NaN = word_of_int (- (2 ^ 63))"

text \<open>\<^verbatim>\<open>xs[:stop]\<close>: a negative stop counts from the end.\<close>

definition py_prefix :: "'a list \<Rightarrow> int \<Rightarrow> 'a list" where
  "py_prefix xs stop =
     (if stop < 0 then take (nat (int (length xs) + stop)) xs else take (nat stop) xs)"

text \<open>\<^verbatim>\<open>xs[a:b]\<close> for indices that are not negative: out-of-range bounds are clipped.\<close>

definition slice :: "nat \<Rightarrow> nat \<Rightarrow> 'a list \<Rightarrow> 'a list" where
  "slice a b xs = take (b - a) (drop a xs)"

definition np_sum :: "int64 list \<Rightarrow> int64" where
  "np_sum xs = sum_list xs"

text \<open>
  Elementwise addition of two one-dimensional arrays. Equal shapes add pointwise, an
  array of one element is broadcast, any other pair of shapes raises.
\<close>

definition np_add :: "int64 list \<Rightarrow> int64 list \<Rightarrow> py_error + int64 list" where
  "np_add a b =
     (if length a = length b then Inr (map2 (+) a b)
      else if length a = 1 then Inr (map (\<lambda>v. hd a + v) b)
      else if length b = 1 then Inr (map (\<lambda>v. v + hd b) a)
      else Inl ValueError)"

text \<open>\<^verbatim>\<open>>>\<close> on an \<^verbatim>\<open>np.int64\<close>: the arithmetic right shift.\<close>

definition rshift :: "int64 \<Rightarrow> nat \<Rightarrow> int64" where
  "rshift s n = signed_drop_bit n s"

section \<open>Generating a signal\<close>

definition pulse_model ::
  "float64 list \<Rightarrow> real \<Rightarrow> real \<Rightarrow> real \<Rightarrow> nat \<Rightarrow> py_error + float64 list" where
  "pulse_model i tau1 tau2 height start =
     (let leading_zeros = replicate start (Fin 0) in
      if tau1 - tau2 = 0 then Inl ZeroDivisionError
      else
        let c = (tau1 / (tau1 - tau2)) * height;
            ix = py_prefix i (int (length i) - int start);
            pulse_signal =
              map (\<lambda>t. fscale c (fsub (fexp (fdiv (fneg t) tau1)) (fexp (fdiv (fneg t) tau2)))) ix
        in Inr (leading_zeros @ pulse_signal))"

text \<open>
  \<^verbatim>\<open>np.fromfunction\<close> calls the function once, on the whole array of indices
  \<open>0.0, 1.0, ..., length - 1\<close>, and returns what the function returns.
\<close>

definition pulse :: "nat \<Rightarrow> nat \<Rightarrow> real \<Rightarrow> real \<Rightarrow> real \<Rightarrow> py_error + int64 list" where
  "pulse length' start height tau1 tau2 =
     (case pulse_model (map (\<lambda>k. Fin (real k)) [0..<length']) tau1 tau2 height start of
        Inl e \<Rightarrow> Inl e
      | Inr ys \<Rightarrow> Inr (map astype_int ys))"

definition tlen :: nat where "tlen = 100000"
definition ppos :: nat where "ppos = 50000"
definition mvbin :: real where "mvbin = 1.0 / 0.122"
definition dtau :: real where "dtau = 5000"
definition rtau :: real where "rtau = 2"
definition nlev :: real where "nlev = 2"

text \<open>
  \<^verbatim>\<open>np.random.randint(low, high, (n,))\<close> with scalar bounds, as the library documents
  it: an empty request returns at once; the bounds are converted with \<^verbatim>\<open>int()\<close>; they
  must fit \<^verbatim>\<open>int64\<close> and leave a non-empty range \<open>[low, high)\<close>, else \<^verbatim>\<open>ValueError\<close>;
  each element is then a draw reduced into the range.
\<close>

definition randint :: "real \<Rightarrow> real \<Rightarrow> nat \<Rightarrow> rng \<Rightarrow> py_error + (int64 list \<times> rng)" where
  "randint low high n g =
     (if n = 0 then Inr ([], g)
      else
        let lo = trunc_real low; hi = trunc_real high - 1 in
        if lo < - (2 ^ 63) then Inl ValueError
        else if 2 ^ 63 - 1 < hi then Inl ValueError
        else if hi < lo then Inl ValueError
        else Inr (map (\<lambda>k. word_of_int (lo + int (g k mod nat (hi - lo + 1)))) [0..<n],
                  \<lambda>k. g (n + k)))"

definition noise :: "nat \<Rightarrow> real \<Rightarrow> rng \<Rightarrow> py_error + (int64 list \<times> rng)" where
  "noise length' amplitude g = randint (-1 * amplitude) amplitude length' g"

section \<open>Histogramming the pulse height\<close>

definition start_index :: nat where "start_index = 50032"
definition end_index :: nat where "end_index = 50096"

text \<open>The right-hand side of lines 102 and 112: one synthesized signal.\<close>

definition synth :: "int64 list \<Rightarrow> rng \<Rightarrow> py_error + (int64 list \<times> rng)" where
  "synth x g =
     (case pulse tlen ppos (1.332 * 200 * mvbin) dtau rtau of
        Inl e \<Rightarrow> Inl e
      | Inr p \<Rightarrow>
          (case noise (length x) (nlev * mvbin) g of
             Inl e \<Rightarrow> Inl e
           | Inr (nz, g') \<Rightarrow>
               (case np_add p nz of
                  Inl e \<Rightarrow> Inl e
                | Inr s \<Rightarrow> Inr (map (\<lambda>v. v + 8192) s, g'))))"

text \<open>Line 103: the plain-sum energy.\<close>

definition plain_energy :: "int64 list \<Rightarrow> int64" where
  "plain_energy x = rshift (np_sum (slice start_index end_index x)) 6"

text \<open>
  Line 113: the subtracted energy. In Python \<^verbatim>\<open>-\<close> binds tighter than \<^verbatim>\<open>>>\<close>, so
  \<^verbatim>\<open>a - b >> 6\<close> is \<^verbatim>\<open>(a - b) >> 6\<close>.
\<close>

definition sub_energy :: "int64 list \<Rightarrow> int64" where
  "sub_energy x =
     rshift (np_sum (slice start_index end_index x)
             - np_sum (slice (start_index - 1000) (end_index - 1000) x)) 6"

text \<open>
  \<^verbatim>\<open>h[i] += 1\<close> with an \<^verbatim>\<open>np.int64\<close> index: a negative index counts from the end, an
  index outside \<open>[-n, n)\<close> raises \<^verbatim>\<open>IndexError\<close>. The bins hold counts.
\<close>

definition hist_incr :: "nat list \<Rightarrow> int64 \<Rightarrow> py_error + nat list" where
  "hist_incr h i =
     (let n = int (length h);
          j = (if sint i < 0 then sint i + n else sint i)
      in if 0 \<le> j \<and> j < n then Inr (h[nat j := h ! nat j + 1]) else Inl IndexError)"

text \<open>Lines 103-104 and 113-114: extract and record.\<close>

definition h1_record :: "int64 list \<Rightarrow> nat list \<Rightarrow> py_error + nat list" where
  "h1_record x h = hist_incr h (plain_energy x)"

definition h2_record :: "int64 list \<Rightarrow> nat list \<Rightarrow> py_error + nat list" where
  "h2_record x h = hist_incr h (sub_energy x)"

text \<open>
  The loops of lines 101-104 and 110-114, by recursion on the number of trials left. The
  state is the signal \<open>x\<close> (its size is read by the next trial), the random source and
  the histogram.
\<close>

fun h1_loop ::
  "nat \<Rightarrow> int64 list \<Rightarrow> rng \<Rightarrow> nat list \<Rightarrow> py_error + (int64 list \<times> rng \<times> nat list)" where
  "h1_loop 0 x g h = Inr (x, g, h)"
| "h1_loop (Suc n) x g h =
     (case synth x g of
        Inl e \<Rightarrow> Inl e
      | Inr (x', g') \<Rightarrow>
          (case h1_record x' h of
             Inl e \<Rightarrow> Inl e
           | Inr h' \<Rightarrow> h1_loop n x' g' h'))"

fun h2_loop ::
  "nat \<Rightarrow> int64 list \<Rightarrow> rng \<Rightarrow> nat list \<Rightarrow> py_error + (int64 list \<times> rng \<times> nat list)" where
  "h2_loop 0 x g h = Inr (x, g, h)"
| "h2_loop (Suc n) x g h =
     (case synth x g of
        Inl e \<Rightarrow> Inl e
      | Inr (x', g') \<Rightarrow>
          (case h2_record x' h of
             Inl e \<Rightarrow> Inl e
           | Inr h' \<Rightarrow> h2_loop n x' g' h'))"

text \<open>
  The script from line 50 to line 114: the first signal (lines 50, 73 and 79), then the
  two histogram loops. Plotting is left out, and so is line 91, which computes and prints
  one energy without changing \<open>x\<close>. The result is the pair of histograms \<open>(h1, h2)\<close>.
\<close>

definition program :: "rng \<Rightarrow> py_error + (nat list \<times> nat list)" where
  "program g =
     (case pulse tlen ppos (1.332 * 200 * mvbin) dtau rtau of
        Inl e \<Rightarrow> Inl e
      | Inr x0 \<Rightarrow>
          (case noise (length x0) (nlev * mvbin) g of
             Inl e \<Rightarrow> Inl e
           | Inr (nz, g1) \<Rightarrow>
               (case np_add x0 nz of
                  Inl e \<Rightarrow> Inl e
                | Inr x1 \<Rightarrow>
                    (let x2 = map (\<lambda>v. v + 8192) x1 in
                     case h1_loop 300 x2 g1 (replicate 16384 0) of
                       Inl e \<Rightarrow> Inl e
                     | Inr (x3, g2, h1) \<Rightarrow>
                         (case h2_loop 300 x3 g2 (replicate 16384 0) of
                            Inl e \<Rightarrow> Inl e
                          | Inr (x4, g3, h2) \<Rightarrow> Inr (h1, h2))))))"

section \<open>The pulse in float64 arithmetic\<close>

text \<open>
  The definitions of the previous section compute the pulse with exact reals. That is
  what the script's own constants need, where the float64 result and the exact one
  truncate to the same integers, and it is enough for lengths and errors. For arbitrary
  parameters the rounding and the overflow of float64 matter, so the pulse is defined
  once more with the arithmetic of lines 24-26 as the code performs it: every operation
  on finite values computes the exact result and rounds it with \<open>rnd\<close>, which yields
  a finite float64 or, on overflow, an infinity; the special values follow the IEEE
  rules; \<open>ef\<close> is \<^verbatim>\<open>np.exp\<close> on one element. Both \<open>rnd\<close> and \<open>ef\<close> are left open:
  what is proved holds for every rounding and every exponential routine.
\<close>

fun f_sub :: "(real \<Rightarrow> float64) \<Rightarrow> float64 \<Rightarrow> float64 \<Rightarrow> float64" where
  "f_sub rnd (Fin a) (Fin b) = rnd (a - b)"
| "f_sub rnd NaN y = NaN"
| "f_sub rnd x NaN = NaN"
| "f_sub rnd PInf PInf = NaN"
| "f_sub rnd NInf NInf = NaN"
| "f_sub rnd PInf y = PInf"
| "f_sub rnd NInf y = NInf"
| "f_sub rnd x PInf = NInf"
| "f_sub rnd x NInf = PInf"

fun f_mul :: "(real \<Rightarrow> float64) \<Rightarrow> float64 \<Rightarrow> float64 \<Rightarrow> float64" where
  "f_mul rnd (Fin a) (Fin b) = rnd (a * b)"
| "f_mul rnd NaN y = NaN"
| "f_mul rnd x NaN = NaN"
| "f_mul rnd (Fin a) PInf = (if a = 0 then NaN else if 0 < a then PInf else NInf)"
| "f_mul rnd (Fin a) NInf = (if a = 0 then NaN else if 0 < a then NInf else PInf)"
| "f_mul rnd PInf (Fin b) = (if b = 0 then NaN else if 0 < b then PInf else NInf)"
| "f_mul rnd NInf (Fin b) = (if b = 0 then NaN else if 0 < b then NInf else PInf)"
| "f_mul rnd PInf PInf = PInf"
| "f_mul rnd PInf NInf = NInf"
| "f_mul rnd NInf PInf = NInf"
| "f_mul rnd NInf NInf = PInf"

text \<open>Division of array elements: a zero divisor yields an infinity or NaN, no exception.\<close>

fun f_div :: "(real \<Rightarrow> float64) \<Rightarrow> float64 \<Rightarrow> float64 \<Rightarrow> float64" where
  "f_div rnd (Fin a) (Fin b) =
     (if b = 0 then (if a = 0 then NaN else if 0 < a then PInf else NInf)
      else rnd (a / b))"
| "f_div rnd NaN y = NaN"
| "f_div rnd x NaN = NaN"
| "f_div rnd (Fin a) PInf = Fin 0"
| "f_div rnd (Fin a) NInf = Fin 0"
| "f_div rnd PInf (Fin b) = (if b < 0 then NInf else PInf)"
| "f_div rnd NInf (Fin b) = (if b < 0 then PInf else NInf)"
| "f_div rnd PInf PInf = NaN"
| "f_div rnd PInf NInf = NaN"
| "f_div rnd NInf PInf = NaN"
| "f_div rnd NInf NInf = NaN"

text \<open>
  The scalar \<^verbatim>\<open>(tau1 / (tau1 - tau2)) * height\<close> of line 24, computed in Python floats:
  the division raises when the difference is zero, and the product can overflow to an
  infinity.
\<close>

definition gain :: "(real \<Rightarrow> float64) \<Rightarrow> real \<Rightarrow> real \<Rightarrow> real \<Rightarrow> py_error + float64" where
  "gain rnd tau1 tau2 height =
     (let d = f_sub rnd (Fin tau1) (Fin tau2) in
      if d = Fin 0 then Inl ZeroDivisionError
      else Inr (f_mul rnd (f_div rnd (Fin tau1) d) (Fin height)))"

definition pulse_model_fp ::
  "(real \<Rightarrow> float64) \<Rightarrow> (float64 \<Rightarrow> float64) \<Rightarrow> float64 list \<Rightarrow> real \<Rightarrow> real \<Rightarrow> real \<Rightarrow> nat
   \<Rightarrow> py_error + float64 list" where
  "pulse_model_fp rnd ef i tau1 tau2 height start =
     (let leading_zeros = replicate start (Fin 0) in
      case gain rnd tau1 tau2 height of
        Inl e \<Rightarrow> Inl e
      | Inr c \<Rightarrow>
          (let ix = py_prefix i (int (length i) - int start);
               pulse_signal =
                 map (\<lambda>t. f_mul rnd c
                             (f_sub rnd (ef (f_div rnd (fneg t) (Fin tau1)))
                                        (ef (f_div rnd (fneg t) (Fin tau2))))) ix
           in Inr (leading_zeros @ pulse_signal)))"

definition pulse_fp ::
  "(real \<Rightarrow> float64) \<Rightarrow> (float64 \<Rightarrow> float64) \<Rightarrow> nat \<Rightarrow> nat \<Rightarrow> real \<Rightarrow> real \<Rightarrow> real
   \<Rightarrow> py_error + int64 list" where
  "pulse_fp rnd ef length' start height tau1 tau2 =
     (case pulse_model_fp rnd ef (map (\<lambda>k. Fin (real k)) [0..<length']) tau1 tau2 height start of
        Inl e \<Rightarrow> Inl e
      | Inr ys \<Rightarrow> Inr (map astype_int ys))"

section \<open>The specification's formulas and names for the proofs\<close>

text \<open>
  The pulse shape as the specification writes it, a real number for the sample index
  \<open>k \<ge> start\<close>: \<open>(tau1 / (tau1 - tau2)) \<cdot> height \<cdot> (exp (- (k - start) / tau1) - exp (- (k - start) / tau2))\<close>.
\<close>

definition spec_pulse_expr :: "real \<Rightarrow> real \<Rightarrow> real \<Rightarrow> nat \<Rightarrow> nat \<Rightarrow> real" where
  "spec_pulse_expr tau1 tau2 height start k =
     (tau1 / (tau1 - tau2)) * height
       * (exp (- (real k - real start) / tau1) - exp (- (real k - real start) / tau2))"

text \<open>
  The element that \<open>pulse_model\<close> computes for the index value \<open>j\<close>: the body of its
  array expression, named for the proofs.
\<close>

definition pulse_sample :: "real \<Rightarrow> real \<Rightarrow> real \<Rightarrow> nat \<Rightarrow> float64" where
  "pulse_sample tau1 tau2 height j =
     fscale ((tau1 / (tau1 - tau2)) * height)
       (fsub (fexp (fdiv (fneg (Fin (real j))) tau1)) (fexp (fdiv (fneg (Fin (real j))) tau2)))"


text \<open>
  The specification's expression for sample \<open>k\<close>, each of its operations performed in
  float64.
\<close>

definition spec_pulse_float ::
  "(real \<Rightarrow> float64) \<Rightarrow> (float64 \<Rightarrow> float64) \<Rightarrow> real \<Rightarrow> real \<Rightarrow> real \<Rightarrow> nat \<Rightarrow> nat \<Rightarrow> float64" where
  "spec_pulse_float rnd ef tau1 tau2 height start k =
     f_mul rnd
       (f_mul rnd (f_div rnd (Fin tau1) (f_sub rnd (Fin tau1) (Fin tau2))) (Fin height))
       (f_sub rnd (ef (f_div rnd (Fin (- (real k - real start))) (Fin tau1)))
                  (ef (f_div rnd (Fin (- (real k - real start))) (Fin tau2))))"

text \<open>The element that \<open>pulse_model_fp\<close> computes for the index value \<open>j\<close>.\<close>

definition pulse_sample_fp ::
  "(real \<Rightarrow> float64) \<Rightarrow> (float64 \<Rightarrow> float64) \<Rightarrow> float64 \<Rightarrow> real \<Rightarrow> real \<Rightarrow> nat \<Rightarrow> float64" where
  "pulse_sample_fp rnd ef c tau1 tau2 j =
     f_mul rnd c
       (f_sub rnd (ef (f_div rnd (fneg (Fin (real j))) (Fin tau1)))
                  (ef (f_div rnd (fneg (Fin (real j))) (Fin tau2))))"

text \<open>
  A rounding for concrete evaluations: exact below the overflow threshold of float64,
  an infinity from \<open>2 ^ 1024\<close> on.
\<close>

definition round_overflow :: "real \<Rightarrow> float64" where
  "round_overflow r =
     (if 2 ^ 1024 \<le> r then PInf else if r \<le> - (2 ^ 1024) then NInf else Fin r)"


section \<open>Names for the proofs about the trials\<close>

text \<open>The random source after \<open>m\<close> draws were consumed.\<close>

definition shift :: "nat \<Rightarrow> rng \<Rightarrow> rng" where
  "shift m g = (\<lambda>k. g (m + k))"

text \<open>
  The integer value of sample \<open>k\<close> of the script's pulse, of its noise for the source
  \<open>g\<close>, and the signal that one trial synthesizes from \<open>g\<close> (proved below to be what
  \<open>synth\<close> returns).
\<close>

definition pulse_int :: "nat \<Rightarrow> int" where
  "pulse_int k =
     (if k < ppos then 0
      else trunc_real (spec_pulse_expr dtau rtau (1.332 * 200 * mvbin) ppos k))"

definition noise_int :: "rng \<Rightarrow> nat \<Rightarrow> int" where
  "noise_int g k = - 16 + int (g k mod 32)"

definition signal :: "rng \<Rightarrow> int64 list" where
  "signal g = map (\<lambda>k. word_of_int (pulse_int k + noise_int g k + 8192)) [0..<tlen]"

text \<open>The integer sum of the 64 samples of that signal from index \<open>a\<close> on.\<close>

definition window_sum :: "rng \<Rightarrow> nat \<Rightarrow> int" where
  "window_sum g a = sum_list (map (\<lambda>k. pulse_int k + noise_int g k + 8192) [a..<a + 64])"

text \<open>
  The bin that an energy addresses in 16384 bins, and the histogram after a successful
  update.
\<close>

definition bin_of :: "int64 \<Rightarrow> nat" where
  "bin_of i = nat (if sint i < 0 then sint i + 16384 else sint i)"

definition bump :: "nat list \<Rightarrow> int64 \<Rightarrow> nat list" where
  "bump h i = h[bin_of i := h ! bin_of i + 1]"

text \<open>
  The histogram after \<open>n\<close> trials that never fail: each trial synthesizes a signal from
  the next 100000 draws and records its energy \<open>E\<close>.
\<close>

fun accumulate :: "(int64 list \<Rightarrow> int64) \<Rightarrow> nat \<Rightarrow> rng \<Rightarrow> nat list \<Rightarrow> nat list" where
  "accumulate E 0 g h = h"
| "accumulate E (Suc n) g h = accumulate E n (shift tlen g) (bump h (E (signal g)))"

text \<open>
  The trial loop as the specification describes it: each trial synthesizes one signal and
  feeds that same signal to both extractors. \<open>paired_program\<close> is the script with this
  loop in place of its two loops.
\<close>

fun paired_loop ::
  "nat \<Rightarrow> int64 list \<Rightarrow> rng \<Rightarrow> nat list \<Rightarrow> nat list
   \<Rightarrow> py_error + (int64 list \<times> rng \<times> nat list \<times> nat list)" where
  "paired_loop 0 x g h1 h2 = Inr (x, g, h1, h2)"
| "paired_loop (Suc n) x g h1 h2 =
     (case synth x g of
        Inl e \<Rightarrow> Inl e
      | Inr (x', g') \<Rightarrow>
          (case h1_record x' h1 of
             Inl e \<Rightarrow> Inl e
           | Inr h1' \<Rightarrow>
               (case h2_record x' h2 of
                  Inl e \<Rightarrow> Inl e
                | Inr h2' \<Rightarrow> paired_loop n x' g' h1' h2')))"

definition paired_program :: "rng \<Rightarrow> py_error + (nat list \<times> nat list)" where
  "paired_program g =
     (case pulse tlen ppos (1.332 * 200 * mvbin) dtau rtau of
        Inl e \<Rightarrow> Inl e
      | Inr x0 \<Rightarrow>
          (case noise (length x0) (nlev * mvbin) g of
             Inl e \<Rightarrow> Inl e
           | Inr (nz, g1) \<Rightarrow>
               (case np_add x0 nz of
                  Inl e \<Rightarrow> Inl e
                | Inr x1 \<Rightarrow>
                    (let x2 = map (\<lambda>v. v + 8192) x1 in
                     case paired_loop 300 x2 g1 (replicate 16384 0) (replicate 16384 0) of
                       Inl e \<Rightarrow> Inl e
                     | Inr (x3, g2, h1, h2) \<Rightarrow> Inr (h1, h2)))))"

text \<open>
  A random source: zero draws for the first signal and the 300 trials of the first loop,
  then draws that lift the noise of the pre-pulse window to its maximum.
\<close>

definition gen_cex :: rng where
  "gen_cex k =
     (if k < 30100000 then 0
      else if 49032 \<le> k mod 100000 \<and> k mod 100000 < 49096 then 31 else 0)"

section \<open>Sums and shifts of 64-bit samples\<close>

lemma sum_list_incr:
  fixes h :: "nat list"
  assumes "j < length h"
  shows "sum_list (h[j := h ! j + 1]) = sum_list h + 1"
  using assms by (simp add: sum_list_update)

lemma sint_sum_list_bounded:
  fixes xs :: "int64 list"
  assumes "\<forall>v\<in>set xs. \<bar>sint v\<bar> \<le> B" and "int (length xs) * B < 2 ^ 63"
  shows "sint (sum_list xs) = sum_list (map sint xs) \<and> \<bar>sum_list (map sint xs)\<bar> \<le> int (length xs) * B"
  using assms
proof (induction xs)
  case Nil
  then show ?case by simp
next
  case (Cons a xs)
  have B0: "0 \<le> B" using Cons.prems(1) by fastforce
  have a: "\<bar>sint a\<bar> \<le> B" using Cons.prems(1) by simp
  have len: "int (length xs) * B < 2 ^ 63"
    using Cons.prems(2) B0 by (simp add: algebra_simps)
  have IH: "sint (sum_list xs) = sum_list (map sint xs)"
    and IHb: "\<bar>sum_list (map sint xs)\<bar> \<le> int (length xs) * B"
    using Cons.IH Cons.prems(1) len by auto
  have bnd: "\<bar>sint a + sum_list (map sint xs)\<bar> \<le> int (length (a # xs)) * B"
    using a IHb by (simp add: algebra_simps)
  then have rng: "- (2 ^ 63) \<le> sint a + sum_list (map sint xs)"
    "sint a + sum_list (map sint xs) < 2 ^ 63"
    using Cons.prems(2) by linarith+
  have "sint (a + sum_list xs) = signed_take_bit 63 (sint a + sint (sum_list xs))"
    by (simp add: sint_word_ariths)
  also have "\<dots> = sint a + sum_list (map sint xs)"
    using rng by (simp add: IH signed_take_bit_int_eq_self)
  finally show ?case using bnd by simp
qed

lemma slice_length_le: "length (slice a b xs) \<le> b - a"
  by (simp add: slice_def)

lemma slice_set: "set (slice a b xs) \<subseteq> set xs"
  unfolding slice_def by (meson set_take_subset set_drop_subset subset_trans)

text \<open>
  C2. The shift of both extraction variants is the arithmetic right shift: for every
  64-bit sum \<open>S\<close>, negative ones included, its integer value is the integer value of
  \<open>S\<close> divided by 64 and rounded toward minus infinity. The sum 130 gives 2; the sum
  \<open>-130\<close> gives \<open>-3\<close>, where truncation toward zero would give \<open>-2\<close>.
\<close>

theorem shift_is_floor_division:
  "sint (rshift S 6) = \<lfloor>real_of_int (sint S) / 64\<rfloor>
   \<and> sint (rshift S 6) = sint S div 64
   \<and> sint (plain_energy x) = sint (np_sum (slice start_index end_index x)) div 64
   \<and> sint (sub_energy x) =
       sint (np_sum (slice start_index end_index x)
             - np_sum (slice (start_index - 1000) (end_index - 1000) x)) div 64
   \<and> rshift 130 6 = 2
   \<and> sint (rshift (- 130) 6) = - 3"
proof -
  have fl: "sint (rshift w 6) = sint w div 64" for w :: int64
    by (simp add: rshift_def sint_signed_drop_bit_eq drop_bit_eq_div)
  have "\<lfloor>real_of_int (sint S) / 64\<rfloor> = sint S div 64"
    using floor_divide_of_int_eq [of "sint S" 64, where ?'a = real] by simp
  moreover have "rshift 130 6 = 2"
    by (simp add: rshift_def)
  moreover have "sint (rshift (- 130) 6) = - 3"
    by (simp add: fl)
  ultimately show ?thesis
    by (simp add: fl plain_energy_def sub_energy_def)
qed

text \<open>
  C1. The subtracted energy is the arithmetic right shift by 6 of the difference of the two
  window sums, the windows being \<open>[50032, 50096)\<close> and the same window 1000 samples
  earlier: the shift applies to the difference. Read as an integer, the energy is the
  difference divided by \<open>2 ^ 6\<close>, rounded down; and for samples that cannot overflow
  the 64-bit sums it is the difference of the integer sums, divided the same way.
\<close>

theorem sub_energy_shifts_difference: 
  "sub_energy x = rshift (np_sum (slice 50032 50096 x) - np_sum (slice 49032 49096 x)) 6
   \<and> sint (sub_energy x) = sint (np_sum (slice 50032 50096 x) - np_sum (slice 49032 49096 x)) div 2 ^ 6
   \<and> ((\<forall>v\<in>set x. \<bar>sint v\<bar> \<le> 2 ^ 55) \<longrightarrow>
        sint (sub_energy x) =
          (sum_list (map sint (slice 50032 50096 x)) - sum_list (map sint (slice 49032 49096 x))) div 2 ^ 6)"
proof -
  let ?A = "slice 50032 50096 x" and ?B = "slice 49032 49096 x"
  have eq: "sub_energy x = rshift (np_sum ?A - np_sum ?B) 6"
    by (simp add: sub_energy_def start_index_def end_index_def)
  have sh: "sint (sub_energy x) = sint (np_sum ?A - np_sum ?B) div 2 ^ 6"
    by (simp add: eq rshift_def sint_signed_drop_bit_eq drop_bit_eq_div)
  have int_level: "sint (np_sum ?A - np_sum ?B) = sum_list (map sint ?A) - sum_list (map sint ?B)"
    if bnd: "\<forall>v\<in>set x. \<bar>sint v\<bar> \<le> 2 ^ 55"
  proof -
    have lA: "int (length ?A) \<le> 64" and lB: "int (length ?B) \<le> 64"
      using slice_length_le [of 50032 50096 x] slice_length_le [of 49032 49096 x] by simp_all
    have bA: "\<forall>v\<in>set ?A. \<bar>sint v\<bar> \<le> 2 ^ 55"
      using bnd slice_set [of 50032 50096 x] by (meson subsetD)
    have bB: "\<forall>v\<in>set ?B. \<bar>sint v\<bar> \<le> 2 ^ 55"
      using bnd slice_set [of 49032 49096 x] by (meson subsetD)
    have mA: "int (length ?A) * 2 ^ 55 \<le> 64 * 2 ^ 55" using lA by simp
    then have sA: "int (length ?A) * 2 ^ 55 < 2 ^ 63" by simp
    have mB: "int (length ?B) * 2 ^ 55 \<le> 64 * 2 ^ 55" using lB by simp
    then have sB: "int (length ?B) * 2 ^ 55 < 2 ^ 63" by simp
    have A: "sint (sum_list ?A) = sum_list (map sint ?A)"
      using sint_sum_list_bounded [OF bA sA] by (rule conjunct1)
    have "\<bar>sum_list (map sint ?A)\<bar> \<le> int (length ?A) * 2 ^ 55"
      using sint_sum_list_bounded [OF bA sA] by (rule conjunct2)
    then have A': "\<bar>sum_list (map sint ?A)\<bar> \<le> 64 * 2 ^ 55"
      using mA by (rule order_trans)
    have B: "sint (sum_list ?B) = sum_list (map sint ?B)"
      using sint_sum_list_bounded [OF bB sB] by (rule conjunct1)
    have "\<bar>sum_list (map sint ?B)\<bar> \<le> int (length ?B) * 2 ^ 55"
      using sint_sum_list_bounded [OF bB sB] by (rule conjunct2)
    then have B': "\<bar>sum_list (map sint ?B)\<bar> \<le> 64 * 2 ^ 55"
      using mB by (rule order_trans)
    have "sint (sum_list ?A - sum_list ?B) = signed_take_bit 63 (sint (sum_list ?A) - sint (sum_list ?B))"
      by (simp add: sint_word_ariths)
    also have "\<dots> = sum_list (map sint ?A) - sum_list (map sint ?B)"
      using A' B' by (simp add: A B signed_take_bit_int_eq_self)
    finally show ?thesis by (simp add: np_sum_def)
  qed
  show ?thesis using eq sh int_level by simp
qed

theorem sub_energy_shifts_difference_witness:
  "list_all (\<lambda>v. \<bar>sint v\<bar> \<le> 2 ^ 55)
     (replicate 49032 0 @ replicate 64 10 @ replicate 936 0 @ replicate 64 (75::int64))
   \<and> sint (sub_energy (replicate 49032 0 @ replicate 64 10 @ replicate 936 0 @ replicate 64 75)) = 65"
proof -
  let ?x = "replicate 49032 0 @ replicate 64 10 @ replicate 936 0 @ replicate 64 (75::int64)"
  have h: "\<forall>v\<in>set ?x. \<bar>sint v\<bar> \<le> 2 ^ 55" by auto
  have A: "slice 50032 50096 ?x = replicate 64 75" by (simp add: slice_def)
  have B: "slice 49032 49096 ?x = replicate 64 10" by (simp add: slice_def)
  have "sint (sub_energy ?x) = (sum_list (map sint (replicate 64 (75::int64))) - sum_list (map sint (replicate 64 (10::int64)))) div 2 ^ 6"
    using sub_energy_shifts_difference [of ?x] h unfolding A B by blast
  also have "\<dots> = 65" by (simp add: sum_list_replicate)
  finally show ?thesis using h by (simp add: list_all_iff)
qed

section \<open>The histogram update\<close>

lemma hist_incr_wrap:
  assumes "- int (length h) \<le> sint i" and "sint i < 0"
  shows "hist_incr h i = Inr (h[nat (int (length h) + sint i) := h ! nat (int (length h) + sint i) + 1])"
  using assms by (simp add: hist_incr_def Let_def add.commute)

text \<open>
  C10. When the subtracted energy \<open>e\<close> of a signal is negative with
  \<open>-16384 \<le> e < 0\<close>, recording it in a histogram of 16384 bins raises no error: it
  increments bin \<open>16384 + e\<close> by one, so the total count grows by one.
\<close>

theorem negative_energy_wraps:
  assumes "length h = 16384" and "- 16384 \<le> sint (sub_energy x)" and "sint (sub_energy x) < 0"
  shows "h2_record x h =
           Inr (h[nat (16384 + sint (sub_energy x)) := h ! nat (16384 + sint (sub_energy x)) + 1])
         \<and> nat (16384 + sint (sub_energy x)) < length h
         \<and> sum_list (h[nat (16384 + sint (sub_energy x)) := h ! nat (16384 + sint (sub_energy x)) + 1])
             = sum_list h + 1"
proof -
  have j: "nat (16384 + sint (sub_energy x)) < length h"
    using assms by simp
  have "h2_record x h =
          Inr (h[nat (16384 + sint (sub_energy x)) := h ! nat (16384 + sint (sub_energy x)) + 1])"
    using hist_incr_wrap [of h "sub_energy x"] assms by (simp add: h2_record_def)
  then show ?thesis using j sum_list_incr [OF j] by simp
qed

theorem negative_energy_wraps_witness:
  "length (replicate 16384 (0::nat)) = 16384
   \<and> sint (sub_energy (replicate 49032 0 @ replicate 64 1)) = - 1
   \<and> h2_record (replicate 49032 0 @ replicate 64 1) (replicate 16384 0)
       = Inr ((replicate 16384 0)[16383 := 1])
   \<and> sum_list ((replicate 16384 (0::nat))[16383 := 1]) = 1"
proof -
  let ?x = "replicate 49032 0 @ replicate 64 (1::int64)"
  have e: "sub_energy ?x = - 1"
    by (simp add: sub_energy_def start_index_def end_index_def slice_def np_sum_def rshift_def
        sum_list_replicate)
  have s: "sint (sub_energy ?x) = - 1" by (simp add: e)
  show ?thesis
    using negative_energy_wraps [of "replicate 16384 0" ?x] s by simp
qed

section \<open>The pulse\<close>

lemma trunc_real_0 [simp]: "trunc_real 0 = 0"
  by (simp add: trunc_real_def)

lemma sint_word_of_int_64:
  assumes "- (2 ^ 63) \<le> v" and "v < 2 ^ 63"
  shows "sint (word_of_int v :: int64) = v"
proof -
  have "sint (word_of_int v :: int64) = signed_take_bit 63 v"
    by (simp add: sint_sbintrunc')
  then show ?thesis using assms by (simp add: signed_take_bit_int_eq_self)
qed

lemma astype_int_0 [simp]: "astype_int (Fin 0) = 0"
  by simp

lemma py_prefix_upt:
  "py_prefix (map f [0..<n]) (int n - int s) =
     map f [0..<(if s \<le> n then n - s else 2 * n - s)]"
proof (cases "s \<le> n")
  case True
  then have "nat (int n - int s) = n - s" by simp
  then show ?thesis using True
    by (simp add: py_prefix_def take_map take_upt)
next
  case False
  then have "nat (int n + (int n - int s)) = 2 * n - s" by linarith
  moreover have "2 * n - s \<le> n" using False by simp
  ultimately show ?thesis using False
    by (simp add: py_prefix_def take_map take_upt)
qed

lemma pulse_eq:
  assumes "tau1 \<noteq> tau2"
  shows "pulse n s height tau1 tau2 =
           Inr (replicate s 0 @
                map (\<lambda>j. astype_int (pulse_sample tau1 tau2 height j))
                  [0..<(if s \<le> n then n - s else 2 * n - s)])"
proof -
  have "py_prefix (map (\<lambda>k. Fin (real k)) [0..<n]) (int (length (map (\<lambda>k. Fin (real k)) [0..<n])) - int s)
        = map (\<lambda>k. Fin (real k)) [0..<(if s \<le> n then n - s else 2 * n - s)]"
    using py_prefix_upt [of "\<lambda>k. Fin (real k)" n s] by simp
  then show ?thesis using assms
    by (simp add: pulse_def pulse_model_def Let_def pulse_sample_def o_def)
qed

lemma pulse_sample_fin:
  assumes "tau1 \<noteq> 0" and "tau2 \<noteq> 0"
  shows "pulse_sample tau1 tau2 height j =
           Fin ((tau1 / (tau1 - tau2)) * height * (exp (- real j / tau1) - exp (- real j / tau2)))"
  using assms by (simp add: pulse_sample_def)


lemma gain_Inr:
  assumes "rnd (tau1 - tau2) \<noteq> Fin 0"
  shows "gain rnd tau1 tau2 height
         = Inr (f_mul rnd (f_div rnd (Fin tau1) (f_sub rnd (Fin tau1) (Fin tau2))) (Fin height))"
  using assms by (simp add: gain_def)

lemma pulse_fp_eq:
  assumes "gain rnd tau1 tau2 height = Inr c"
  shows "pulse_fp rnd ef n s height tau1 tau2 =
           Inr (replicate s 0 @
                map (\<lambda>j. astype_int (pulse_sample_fp rnd ef c tau1 tau2 j))
                  [0..<(if s \<le> n then n - s else 2 * n - s)])"
proof -
  have "py_prefix (map (\<lambda>k. Fin (real k)) [0..<n]) (int (length (map (\<lambda>k. Fin (real k)) [0..<n])) - int s)
        = map (\<lambda>k. Fin (real k)) [0..<(if s \<le> n then n - s else 2 * n - s)]"
    using py_prefix_upt [of "\<lambda>k. Fin (real k)" n s] by simp
  then show ?thesis using assms
    by (simp add: pulse_fp_def pulse_model_fp_def Let_def pulse_sample_fp_def o_def)
qed

lemma f_sub_exact: "f_sub Fin x y = fsub x y"
  by (cases x; cases y) simp_all

lemma f_mul_exact: "f_mul Fin (Fin c) x = fscale c x"
  by (cases x) simp_all

lemma f_div_exact: "f_div Fin x (Fin t) = fdiv x t"
  by (cases x) simp_all

lemma pulse_fp_exact: "pulse_fp Fin fexp n s height tau1 tau2 = pulse n s height tau1 tau2"
  by (simp add: pulse_fp_def pulse_def pulse_model_fp_def pulse_model_def gain_def Let_def
      f_sub_exact f_mul_exact f_div_exact)

lemma round_overflow_small:
  assumes "\<bar>r\<bar> < 2 ^ 1024"
  shows "round_overflow r = Fin r"
  using assms by (simp add: round_overflow_def abs_less_iff)

lemma pulse_sample_fp_0:
  assumes "tau1 \<noteq> 0" and "tau2 \<noteq> 0" and "rnd 0 = Fin 0" and "ef (Fin 0) = Fin 1"
  shows "pulse_sample_fp rnd ef (Fin c) tau1 tau2 0 = Fin 0"
  using assms by (simp add: pulse_sample_fp_def)

text \<open>
  C5, as amended. When the float64 difference \<open>tau1 - tau2\<close> is not zero (as it is for
  \<open>tau1 \<noteq> tau2\<close>) and \<open>start \<le> length\<close>, the pulse has \<open>length\<close> samples and every
  sample before \<open>start\<close> is 0, whatever the rounding. The sample at index \<open>start\<close> is 0
  when that index exists (\<open>start < length\<close>), both time constants are not zero and the
  float64 gain \<open>(tau1 / (tau1 - tau2)) \<cdot> height\<close> is finite; an exact zero rounds to zero
  and \<^verbatim>\<open>np.exp(0)\<close> is 1.
\<close>

theorem pulse_delay_region:
  assumes "rnd (tau1 - tau2) \<noteq> Fin 0" and "start \<le> length'"
  shows "\<exists>y. pulse_fp rnd ef length' start height tau1 tau2 = Inr y \<and> length y = length'
           \<and> (\<forall>k. k < start \<longrightarrow> y ! k = 0)
           \<and> (start < length' \<and> tau1 \<noteq> 0 \<and> tau2 \<noteq> 0
                \<and> rnd 0 = Fin 0 \<and> ef (Fin 0) = Fin 1
                \<and> (\<exists>c. gain rnd tau1 tau2 height = Inr (Fin c))
                \<longrightarrow> y ! start = 0)"
proof -
  obtain g where g: "gain rnd tau1 tau2 height = Inr g"
    using gain_Inr [of rnd tau1 tau2 height] assms(1) by blast
  let ?y = "replicate start 0 @
            map (\<lambda>j. astype_int (pulse_sample_fp rnd ef g tau1 tau2 j)) [0..<length' - start]"
  have eq: "pulse_fp rnd ef length' start height tau1 tau2 = Inr ?y"
    using pulse_fp_eq [OF g, of ef length' start] assms(2) by simp
  have len: "length ?y = length'" using assms(2) by simp
  have z: "\<forall>k. k < start \<longrightarrow> ?y ! k = 0" by (simp add: nth_append)
  have s: "?y ! start = 0"
    if h: "start < length'" "tau1 \<noteq> 0" "tau2 \<noteq> 0" "rnd 0 = Fin 0" "ef (Fin 0) = Fin 1"
      "\<exists>c. gain rnd tau1 tau2 height = Inr (Fin c)"
  proof -
    obtain c where "g = Fin c" using h(6) g by auto
    then show ?thesis
      using h(1) pulse_sample_fp_0 [of tau1 tau2 rnd ef c] h(2,3,4,5) by (simp add: nth_append)
  qed
  show ?thesis using eq len z s by blast
qed

theorem pulse_delay_region_witness:
  "round_overflow (2 - 1) \<noteq> Fin 0 \<and> (1::nat) \<le> 3 \<and> (1::nat) < 3
   \<and> (2::real) \<noteq> 0 \<and> (1::real) \<noteq> 0
   \<and> round_overflow 0 = Fin 0 \<and> fexp (Fin 0) = Fin 1
   \<and> gain round_overflow 2 1 1 = Inr (Fin 2)
   \<and> (\<exists>y. pulse_fp round_overflow fexp 3 1 1 2 1 = Inr y \<and> length y = 3
          \<and> y ! 0 = 0 \<and> y ! 1 = 0)"
proof -
  have r: "round_overflow (2 - 1) \<noteq> Fin 0" by (simp add: round_overflow_small)
  have g: "gain round_overflow 2 1 1 = Inr (Fin 2)"
    by (simp add: gain_def round_overflow_small)
  have z: "round_overflow 0 = Fin 0" by (simp add: round_overflow_small)
  show ?thesis
    using pulse_delay_region [of round_overflow 2 1 1 3 fexp 1] g z r by auto
qed

text \<open>
  Without these conditions the sample at \<open>start\<close> is not 0: at \<open>start = length\<close> the
  array has no index \<open>start\<close>; at \<open>tau2 = 0\<close> the sample at \<open>start\<close> is the cast of
  NaN; and for the height \<open>2 ^ 1023\<close> the gain overflows to infinity, which times 0 is
  NaN again.
\<close>

theorem pulse_delay_region_counterexample:
  "pulse_fp round_overflow fexp 2 2 1 2 1 = Inr [0, 0]
   \<and> pulse_fp round_overflow fexp 1 0 1 1 0 = Inr [- 9223372036854775808]
   \<and> pulse_fp round_overflow fexp 1 0 (2 ^ 1023) 10 9 = Inr [- 9223372036854775808]"
proof -
  have g1: "gain round_overflow 2 1 1 = Inr (Fin 2)"
    by (simp add: gain_def round_overflow_small)
  have g2: "gain round_overflow 1 0 1 = Inr (Fin 1)"
    by (simp add: gain_def round_overflow_small)
  have g3: "gain round_overflow 10 9 (2 ^ 1023) = Inr PInf"
    by (simp add: gain_def round_overflow_small) (simp add: round_overflow_def)
  have 1: "pulse_fp round_overflow fexp 2 2 1 2 1 = Inr [0, 0]"
    by (simp add: pulse_fp_eq [OF g1] numeral_2_eq_2)
  have 2: "pulse_fp round_overflow fexp 1 0 1 1 0 = Inr [- 9223372036854775808]"
    by (simp add: pulse_fp_eq [OF g2] pulse_sample_fp_def round_overflow_small)
  have 3: "pulse_fp round_overflow fexp 1 0 (2 ^ 1023) 10 9 = Inr [- 9223372036854775808]"
    unfolding pulse_fp_eq [OF g3]
    by (simp add: pulse_sample_fp_def round_overflow_small)
  show ?thesis using 1 2 3 by (intro conjI)
qed

lemma exp_gap:
  assumes "0 < a" and "a < b"
  shows "0 < exp (- a) - exp (- b)" and "exp (- a) - exp (- b) < (1::real)"
proof -
  have "exp (- b) < exp (- a)" using assms by simp
  then show "0 < exp (- a) - exp (- b)" by simp
  have "exp (- a) < 1" using assms by simp
  moreover have "0 < exp (- b)" by simp
  ultimately show "exp (- a) - exp (- b) < 1" by linarith
qed

lemma spec_pulse_float_sample:
  assumes "gain rnd tau1 tau2 height = Inr c" and "start \<le> k"
  shows "pulse_sample_fp rnd ef c tau1 tau2 (k - start) = spec_pulse_float rnd ef tau1 tau2 height start k"
proof -
  have r: "real (k - start) = real k - real start" using assms(2) by simp
  have c: "c = f_mul rnd (f_div rnd (Fin tau1) (f_sub rnd (Fin tau1) (Fin tau2))) (Fin height)"
    using assms(1) by (simp add: gain_def Let_def split: if_splits)
  show ?thesis
    by (simp add: pulse_sample_fp_def spec_pulse_float_def r c)
qed

lemma trunc_real_cast:
  assumes "- (2 ^ 63) \<le> trunc_real v" and "trunc_real v < 2 ^ 63"
  shows "sint (astype_int (Fin v)) = trunc_real v"
  using assms sint_word_of_int_64 [of "trunc_real v"] by simp

text \<open>
  C6, as amended. When the float64 difference \<open>tau1 - tau2\<close> is not zero and
  \<open>start \<le> k < length\<close>, sample \<open>k\<close> is the cast of the specification's expression
  evaluated in float64, converted to an integer once, after the whole expression is
  evaluated. The cast truncates toward zero: for a finite value whose truncation fits
  \<^verbatim>\<open>int64\<close> the sample is that truncation, which is the floor of a non-negative value
  and the ceiling of a negative one.
\<close>

theorem pulse_truncates_toward_zero:
  assumes "rnd (tau1 - tau2) \<noteq> Fin 0" and "start \<le> k" and "k < length'"
  shows "(\<exists>y. pulse_fp rnd ef length' start height tau1 tau2 = Inr y
            \<and> y ! k = astype_int (spec_pulse_float rnd ef tau1 tau2 height start k))
         \<and> (\<forall>v. - (2 ^ 63) \<le> trunc_real v \<and> trunc_real v < 2 ^ 63
                \<longrightarrow> sint (astype_int (Fin v)) = trunc_real v)
         \<and> (\<forall>v. 0 \<le> v \<longrightarrow> trunc_real v = \<lfloor>v\<rfloor>)
         \<and> (\<forall>v. v < 0 \<longrightarrow> trunc_real v = \<lceil>v\<rceil>)"
proof -
  obtain g where g: "gain rnd tau1 tau2 height = Inr g"
    using gain_Inr [of rnd tau1 tau2 height] assms(1) by blast
  let ?y = "replicate start 0 @
            map (\<lambda>j. astype_int (pulse_sample_fp rnd ef g tau1 tau2 j)) [0..<length' - start]"
  have le: "start \<le> length'" using assms(2,3) by simp
  have eq: "pulse_fp rnd ef length' start height tau1 tau2 = Inr ?y"
    using pulse_fp_eq [OF g, of ef length' start] le by simp
  have "k - start < length' - start" using assms(2,3) by simp
  then have "?y ! k = astype_int (pulse_sample_fp rnd ef g tau1 tau2 (k - start))"
    using assms(2) by (simp add: nth_append)
  then have nth: "?y ! k = astype_int (spec_pulse_float rnd ef tau1 tau2 height start k)"
    by (simp only: spec_pulse_float_sample [OF g assms(2)])
  have 1: "\<exists>y. pulse_fp rnd ef length' start height tau1 tau2 = Inr y
            \<and> y ! k = astype_int (spec_pulse_float rnd ef tau1 tau2 height start k)"
    using eq nth by blast
  have 2: "\<forall>v. - (2 ^ 63) \<le> trunc_real v \<and> trunc_real v < 2 ^ 63
                \<longrightarrow> sint (astype_int (Fin v)) = trunc_real v"
    using trunc_real_cast by blast
  have 3: "\<forall>v. 0 \<le> v \<longrightarrow> trunc_real v = \<lfloor>v\<rfloor>" by (simp add: trunc_real_def)
  have 4: "\<forall>v. v < 0 \<longrightarrow> trunc_real v = \<lceil>v\<rceil>" by (simp add: trunc_real_def)
  show ?thesis using 1 2 3 4 by (intro conjI)
qed

lemma gap_value:
  "spec_pulse_float round_overflow fexp 2 1 (1 / 2) 1 2 = Fin (exp (- (1 / 2)) - exp (- 1))"
proof -
  let ?d = "exp (- (1 / 2)) - exp (- 1 :: real)"
  have d: "0 < ?d" "?d < 1" using exp_gap [of "1 / 2" 1] by simp_all
  have "\<bar>?d\<bar> < 2 ^ 1024" using d by simp
  then have rd: "round_overflow ?d = Fin ?d" by (rule round_overflow_small)
  show ?thesis
    by (simp add: spec_pulse_float_def round_overflow_small rd)
qed

theorem pulse_truncates_toward_zero_witness:
  "round_overflow (2 - 1) \<noteq> Fin 0 \<and> (1::nat) \<le> 2 \<and> (2::nat) < 3
   \<and> (\<exists>y. pulse_fp round_overflow fexp 3 1 (1 / 2) 2 1 = Inr y
          \<and> y ! 2 = astype_int (spec_pulse_float round_overflow fexp 2 1 (1 / 2) 1 2)
          \<and> sint (y ! 2) = 0)
   \<and> spec_pulse_float round_overflow fexp 2 1 (1 / 2) 1 2 = Fin (exp (- (1 / 2)) - exp (- 1))
   \<and> trunc_real (exp (- (1 / 2)) - exp (- 1)) = 0"
proof -
  let ?d = "exp (- (1 / 2)) - exp (- 1 :: real)"
  have d: "0 < ?d" "?d < 1" using exp_gap [of "1 / 2" 1] by simp_all
  have tr: "trunc_real ?d = 0"
    using d by (simp add: trunc_real_def floor_eq_iff)
  have r: "round_overflow (2 - 1) \<noteq> Fin 0" by (simp add: round_overflow_small)
  have c: "sint (astype_int (Fin ?d)) = 0" using tr by simp
  have h: "(1::nat) \<le> 2" "(2::nat) < 3" by simp_all
  from pulse_truncates_toward_zero [of round_overflow 2 1 1 2 3 fexp "1 / 2", OF r h]
  obtain y where y: "pulse_fp round_overflow fexp 3 1 (1 / 2) 2 1 = Inr y"
    "y ! 2 = astype_int (spec_pulse_float round_overflow fexp 2 1 (1 / 2) 1 2)"
    by blast
  have "sint (y ! 2) = 0" unfolding y(2) gap_value by (rule c)
  then have "\<exists>y. pulse_fp round_overflow fexp 3 1 (1 / 2) 2 1 = Inr y
          \<and> y ! 2 = astype_int (spec_pulse_float round_overflow fexp 2 1 (1 / 2) 1 2)
          \<and> sint (y ! 2) = 0"
    using y by blast
  then show ?thesis using r h gap_value tr by (intro conjI)
qed

text \<open>
  For a negative height the sample is not the floor of the expression: here the sample
  is 0 and the floor is \<open>-1\<close>.
\<close>

theorem pulse_floor_counterexample:
  "pulse_fp round_overflow fexp 2 0 (- 1 / 2) 2 1 = Inr [0, 0]
   \<and> \<lfloor>spec_pulse_expr 2 1 (- 1 / 2) 0 1\<rfloor> = - 1"
proof -
  let ?d = "exp (- (1 / 2)) - exp (- 1 :: real)"
  have d: "0 < ?d" "?d < 1" using exp_gap [of "1 / 2" 1] by simp_all
  have e: "spec_pulse_expr 2 1 (- 1 / 2) 0 1 = - ?d"
    by (simp add: spec_pulse_expr_def)
  have fl: "\<lfloor>- ?d\<rfloor> = - 1" using d by (simp add: floor_eq_iff)
  have g: "gain round_overflow 2 1 (- 1 / 2) = Inr (Fin (- 1))"
    by (simp add: gain_def round_overflow_small)
  have "\<bar>?d\<bar> < 2 ^ 1024" using d by simp
  then have rd: "round_overflow ?d = Fin ?d" by (rule round_overflow_small)
  have "\<bar>?d\<bar> < 2 ^ 1024" using d by simp
  then have rd': "round_overflow (exp (- 1) - exp (- (1 / 2))) = Fin (- ?d)"
    using round_overflow_small [of "- ?d"] by simp
  have s0: "pulse_sample_fp round_overflow fexp (Fin (- 1)) 2 1 0 = Fin 0"
    by (rule pulse_sample_fp_0) (simp_all add: round_overflow_small)
  have s1: "pulse_sample_fp round_overflow fexp (Fin (- 1)) 2 1 (Suc 0) = Fin (- ?d)"
    by (simp add: pulse_sample_fp_def round_overflow_small rd rd')
  have tr: "trunc_real (- ?d) = 0"
    using d by (simp add: trunc_real_def ceiling_eq_iff)
  have a1: "astype_int (pulse_sample_fp round_overflow fexp (Fin (- 1)) 2 1 (Suc 0)) = 0"
    unfolding s1 using tr by simp
  have "pulse_fp round_overflow fexp 2 0 (- 1 / 2) 2 1 = Inr [0, 0]"
    unfolding pulse_fp_eq [OF g] by (simp add: numeral_2_eq_2 s0 a1)
  then show ?thesis using e fl by simp
qed




section \<open>The noise generator\<close>

lemma trunc_real_neg: "0 < A \<Longrightarrow> trunc_real (- 1 * A) = - \<lfloor>A\<rfloor>"
  by (simp add: trunc_real_def ceiling_def)

lemma trunc_real_pos: "0 < A \<Longrightarrow> trunc_real A = \<lfloor>A\<rfloor>"
  by (simp add: trunc_real_def)

lemma noise_pos_eq:
  assumes "0 < A"
  shows "noise n A g =
     (if n = 0 then Inr ([], g)
      else if - \<lfloor>A\<rfloor> < - (2 ^ 63) then Inl ValueError
      else if 2 ^ 63 < \<lfloor>A\<rfloor> then Inl ValueError
      else if \<lfloor>A\<rfloor> < 1 then Inl ValueError
      else Inr (map (\<lambda>k. word_of_int (- \<lfloor>A\<rfloor> + int (g k mod nat (2 * \<lfloor>A\<rfloor>)))) [0..<n],
                \<lambda>k. g (n + k)))"
proof -
  have a: "\<lfloor>A\<rfloor> - 1 - - \<lfloor>A\<rfloor> + 1 = 2 * \<lfloor>A\<rfloor>" by simp
  have b: "(\<lfloor>A\<rfloor> - 1 < - \<lfloor>A\<rfloor>) = (\<lfloor>A\<rfloor> < 1)" by linarith
  have c: "(2 ^ 63 - 1 < \<lfloor>A\<rfloor> - 1) = (2 ^ 63 < \<lfloor>A\<rfloor>)" by linarith
  show ?thesis
    unfolding noise_def randint_def Let_def trunc_real_neg [OF assms] trunc_real_pos [OF assms] a b c
    by simp
qed




text \<open>
  C8, as amended. With amplitude 0 the range \<open>[0, 0)\<close> is empty: an empty request
  returns the empty sequence, and for every length \<open>n \<ge> 1\<close> the noise generator
  raises \<^verbatim>\<open>ValueError\<close>.
\<close>

theorem noise_zero_amplitude:
  "noise 0 0 g = Inr ([], g) \<and> noise (Suc n) 0 g = Inl ValueError"
  by (simp add: noise_def randint_def trunc_real_def)

text \<open>Three samples of amplitude 0 are not three zeros: the call fails.\<close>

theorem noise_zero_amplitude_counterexample:
  "noise 3 0 gen_cex = Inl ValueError"
  by (simp add: noise_def randint_def trunc_real_def)

section \<open>The trials\<close>

lemma gain_bounds:
  "0 < (dtau / (dtau - rtau)) * (1.332 * 200 * mvbin)"
  "(dtau / (dtau - rtau)) * (1.332 * 200 * mvbin) < 2185"
  by (simp_all add: dtau_def rtau_def mvbin_def)

lemma exp_gap0:
  assumes "0 \<le> a" and "a \<le> b"
  shows "0 \<le> exp (- a) - exp (- b)" and "exp (- a) - exp (- b) < (1::real)"
proof -
  have "exp (- b) \<le> exp (- a)" using assms by simp
  then show "0 \<le> exp (- a) - exp (- b)" by simp
  have "exp (- a) \<le> 1" using assms by simp
  moreover have "0 < exp (- b)" by simp
  ultimately show "exp (- a) - exp (- b) < 1" by linarith
qed

lemma spec_pulse_bounds:
  assumes "ppos \<le> k"
  shows "0 \<le> spec_pulse_expr dtau rtau (1.332 * 200 * mvbin) ppos k"
    and "spec_pulse_expr dtau rtau (1.332 * 200 * mvbin) ppos k < 2185"
proof -
  let ?t = "real k - real ppos"
  let ?c = "(dtau / (dtau - rtau)) * (1.332 * 200 * mvbin)"
  let ?d = "exp (- (?t / 5000)) - exp (- (?t / 2))"
  have t: "0 \<le> ?t" using assms by simp
  have d: "0 \<le> ?d" "?d < 1"
    using exp_gap0 [of "?t / 5000" "?t / 2"] t by simp_all
  have a1: "- (real k - real ppos) / dtau = - (?t / 5000)"
    by (simp add: dtau_def field_simps)
  have a2: "- (real k - real ppos) / rtau = - (?t / 2)"
    by (simp add: rtau_def field_simps)
  have e: "spec_pulse_expr dtau rtau (1.332 * 200 * mvbin) ppos k = ?c * ?d"
    unfolding spec_pulse_expr_def a1 a2 by (rule refl)
  have c0: "0 \<le> ?c" using gain_bounds(1) by (rule less_imp_le)
  have d1: "?d \<le> 1" using d(2) by (rule less_imp_le)
  show "0 \<le> spec_pulse_expr dtau rtau (1.332 * 200 * mvbin) ppos k"
    unfolding e using c0 d(1) by (rule mult_nonneg_nonneg)
  have "?c * ?d \<le> ?c * 1"
    using d1 c0 by (rule mult_left_mono)
  then have "?c * ?d \<le> ?c" by (simp only: mult_1_right)
  then show "spec_pulse_expr dtau rtau (1.332 * 200 * mvbin) ppos k < 2185"
    unfolding e using gain_bounds(2) by (rule le_less_trans)
qed

lemma pulse_int_bounds: "0 \<le> pulse_int k" "pulse_int k \<le> 2184"
proof -
  show "0 \<le> pulse_int k"
    using spec_pulse_bounds(1) [of k] by (simp add: pulse_int_def trunc_real_def)
  show "pulse_int k \<le> 2184"
  proof (cases "k < ppos")
    case True
    then show ?thesis by (simp add: pulse_int_def)
  next
    case False
    then have "\<lfloor>spec_pulse_expr dtau rtau (1.332 * 200 * mvbin) ppos k\<rfloor> < 2185"
      using spec_pulse_bounds(2) [of k] by (simp add: floor_less_iff)
    then show ?thesis
      using False spec_pulse_bounds(1) [of k] by (simp add: pulse_int_def trunc_real_def)
  qed
qed

lemma pulse_int_before: "k < 50000 \<Longrightarrow> pulse_int k = 0"
  by (simp add: pulse_int_def ppos_def)

lemma pulse_sample_program:
  assumes "ppos \<le> k"
  shows "astype_int (pulse_sample dtau rtau (1.332 * 200 * mvbin) (k - ppos)) = word_of_int (pulse_int k)"
proof -
  let ?e = "spec_pulse_expr dtau rtau (1.332 * 200 * mvbin) ppos k"
  have r: "real (k - ppos) = real k - real ppos" using assms by simp
  have ps: "pulse_sample dtau rtau (1.332 * 200 * mvbin) (k - ppos) = Fin ?e"
    unfolding spec_pulse_expr_def r [symmetric]
    by (rule pulse_sample_fin) (simp_all add: dtau_def rtau_def)
  have pi: "pulse_int k = trunc_real ?e" using assms by (simp add: pulse_int_def)
  have "0 \<le> trunc_real ?e" "trunc_real ?e \<le> 2184"
    using pulse_int_bounds [of k] by (simp_all add: pi)
  then have "astype_int (Fin ?e) = word_of_int (trunc_real ?e)" by simp
  then show ?thesis by (simp only: ps pi)
qed

lemma program_pulse:
  "pulse tlen ppos (1.332 * 200 * mvbin) dtau rtau = Inr (map (\<lambda>k. word_of_int (pulse_int k)) [0..<tlen])"
proof -
  let ?h = "1.332 * 200 * mvbin"
  let ?l = "replicate ppos (0::int64) @ map (\<lambda>j. astype_int (pulse_sample dtau rtau ?h j)) [0..<tlen - ppos]"
  have ne: "dtau \<noteq> rtau" by (simp add: dtau_def rtau_def)
  have le: "ppos \<le> tlen" by (simp add: ppos_def tlen_def)
  have eq: "pulse tlen ppos ?h dtau rtau = Inr ?l"
    using pulse_eq [OF ne, of tlen ppos ?h] le by simp
  have "?l = map (\<lambda>k. word_of_int (pulse_int k)) [0..<tlen]"
  proof (rule nth_equalityI)
    show "length ?l = length (map (\<lambda>k. word_of_int (pulse_int k) :: int64) [0..<tlen])"
      using le by simp
  next
    fix i assume "i < length ?l"
    then have i: "i < tlen" using le by simp
    show "?l ! i = map (\<lambda>k. word_of_int (pulse_int k)) [0..<tlen] ! i"
    proof (cases "i < ppos")
      case True
      then show ?thesis using i by (simp add: nth_append pulse_int_def)
    next
      case False
      then have p: "ppos \<le> i" by simp
      have "i - ppos < tlen - ppos" using i p by simp
      then have "?l ! i = astype_int (pulse_sample dtau rtau ?h (i - ppos))"
        using False by (simp add: nth_append)
      then show ?thesis using i pulse_sample_program [OF p] by simp
    qed
  qed
  then show ?thesis using eq by simp
qed

lemma floor_amplitude: "\<lfloor>nlev * mvbin\<rfloor> = 16" and amplitude_pos: "0 < nlev * mvbin"
  by (simp_all add: nlev_def mvbin_def)

lemma program_noise:
  assumes "0 < n"
  shows "noise n (nlev * mvbin) g = Inr (map (\<lambda>k. word_of_int (noise_int g k)) [0..<n], shift n g)"
  using assms
  by (simp add: noise_pos_eq [OF amplitude_pos] floor_amplitude noise_int_def shift_def)

lemma map2_map_map:
  "map2 f (map g xs) (map h xs) = map (\<lambda>x. f (g x) (h x)) xs"
  by (induction xs) simp_all

lemma synth_eq:
  assumes "length x = tlen"
  shows "synth x g = Inr (signal g, shift tlen g)"
proof -
  have n: "0 < tlen" by (simp add: tlen_def)
  have add: "np_add (map (\<lambda>k. word_of_int (pulse_int k)) [0..<tlen])
                    (map (\<lambda>k. word_of_int (noise_int g k)) [0..<tlen])
             = Inr (map (\<lambda>k. word_of_int (pulse_int k) + word_of_int (noise_int g k)) [0..<tlen])"
    by (simp add: np_add_def map2_map_map)
  show ?thesis
    unfolding synth_def program_pulse assms program_noise [OF n]
    by (simp add: add signal_def o_def)
qed

lemma slice_map_upt:
  assumes "a \<le> b" and "b \<le> n"
  shows "slice a b (map f [0..<n]) = map f [a..<b]"
proof -
  have "take (b - a) [a..<n] = [a..<b]" using assms by (simp add: take_upt)
  then show ?thesis by (simp add: slice_def drop_map take_map drop_upt)
qed

lemma sum_list_word_of_int:
  "sum_list (map (\<lambda>k. word_of_int (F k)) xs) = (word_of_int (sum_list (map F xs)) :: int64)"
  by (induction xs) simp_all

lemma sum_list_map_bounds:
  fixes f :: "nat \<Rightarrow> int"
  assumes "\<forall>x\<in>set xs. lo \<le> f x \<and> f x \<le> hi"
  shows "int (length xs) * lo \<le> sum_list (map f xs) \<and> sum_list (map f xs) \<le> int (length xs) * hi"
  using assms by (induction xs) (auto simp: algebra_simps)

lemma noise_int_bounds: "- 16 \<le> noise_int g k" "noise_int g k \<le> 15"
proof -
  have "g k mod 32 < 32" by simp
  then show "- 16 \<le> noise_int g k" "noise_int g k \<le> 15"
    unfolding noise_int_def by linarith+
qed

lemma sample_bounds:
  "8176 \<le> pulse_int k + noise_int g k + 8192" "pulse_int k + noise_int g k + 8192 \<le> 10391"
  using pulse_int_bounds [of k] noise_int_bounds [of g k] by linarith+

lemma window_sum_bounds:
  "64 * 8176 \<le> window_sum g a" "window_sum g a \<le> 64 * 10391"
proof -
  have "\<forall>k\<in>set [a..<a + 64]. 8176 \<le> pulse_int k + noise_int g k + 8192
          \<and> pulse_int k + noise_int g k + 8192 \<le> 10391"
    using sample_bounds by blast
  from sum_list_map_bounds [OF this]
  show "64 * 8176 \<le> window_sum g a" "window_sum g a \<le> 64 * 10391"
    by (simp_all add: window_sum_def)
qed

lemma length_signal: "length (signal g) = tlen"
  by (simp add: signal_def)

lemma window_word:
  assumes "a + 64 \<le> tlen"
  shows "np_sum (slice a (a + 64) (signal g)) = word_of_int (window_sum g a)"
proof -
  have "slice a (a + 64) (signal g)
        = map (\<lambda>k. word_of_int (pulse_int k + noise_int g k + 8192)) [a..<a + 64]"
    unfolding signal_def using assms by (intro slice_map_upt) simp_all
  then show ?thesis
    by (simp only: np_sum_def window_sum_def sum_list_word_of_int)
qed

lemma sint_rshift6: "sint (rshift w 6) = sint w div 64"
  by (simp add: rshift_def sint_signed_drop_bit_eq drop_bit_eq_div)

lemma plain_energy_signal:
  "sint (plain_energy (signal g)) = window_sum g 50032 div 64"
proof -
  have w: "np_sum (slice 50032 (50032 + 64) (signal g)) = word_of_int (window_sum g 50032)"
    by (rule window_word) (simp add: tlen_def)
  have "sint (word_of_int (window_sum g 50032) :: int64) = window_sum g 50032"
    using window_sum_bounds [of g 50032] by (intro sint_word_of_int_64) simp_all
  then show ?thesis
    using w by (simp add: plain_energy_def start_index_def end_index_def sint_rshift6)
qed

lemma prepulse_window_bounds:
  assumes "a + 64 \<le> 50000"
  shows "64 * 8176 \<le> window_sum g a" "window_sum g a \<le> 64 * 8207"
proof -
  have "\<forall>k\<in>set [a..<a + 64]. 8176 \<le> pulse_int k + noise_int g k + 8192
          \<and> pulse_int k + noise_int g k + 8192 \<le> 8207"
  proof
    fix k assume "k \<in> set [a..<a + 64]"
    then have "k < 50000" using assms by simp
    then have "pulse_int k = 0" by (rule pulse_int_before)
    then show "8176 \<le> pulse_int k + noise_int g k + 8192
          \<and> pulse_int k + noise_int g k + 8192 \<le> 8207"
      using noise_int_bounds [of g k] by linarith
  qed
  from sum_list_map_bounds [OF this]
  show "64 * 8176 \<le> window_sum g a" "window_sum g a \<le> 64 * 8207"
    by (simp_all add: window_sum_def)
qed

lemma window_difference_bounds:
  "- 1984 \<le> window_sum g 50032 - window_sum g 49032"
  "window_sum g 50032 - window_sum g 49032 \<le> 141760"
proof -
  have "(49032::nat) + 64 \<le> 50000" by simp
  from prepulse_window_bounds [OF this, of g] window_sum_bounds [of g 50032]
  show "- 1984 \<le> window_sum g 50032 - window_sum g 49032"
    "window_sum g 50032 - window_sum g 49032 \<le> 141760"
    by linarith+
qed

lemma sub_energy_signal:
  "sint (sub_energy (signal g)) = (window_sum g 50032 - window_sum g 49032) div 64"
proof -
  let ?d = "window_sum g 50032 - window_sum g 49032"
  have w1: "np_sum (slice 50032 (50032 + 64) (signal g)) = word_of_int (window_sum g 50032)"
    by (rule window_word) (simp add: tlen_def)
  have w2: "np_sum (slice 49032 (49032 + 64) (signal g)) = word_of_int (window_sum g 49032)"
    by (rule window_word) (simp add: tlen_def)
  have a1: "slice start_index end_index (signal g) = slice 50032 (50032 + 64) (signal g)"
    by (simp add: start_index_def end_index_def)
  have a2: "slice (start_index - 1000) (end_index - 1000) (signal g)
            = slice 49032 (49032 + 64) (signal g)"
    by (simp add: start_index_def end_index_def)
  have "sub_energy (signal g)
        = rshift (word_of_int (window_sum g 50032) - word_of_int (window_sum g 49032)) 6"
    unfolding sub_energy_def a1 a2 w1 w2 by (rule refl)
  also have "\<dots> = rshift (word_of_int ?d) 6" by simp
  finally have e: "sub_energy (signal g) = rshift (word_of_int ?d) 6" .
  have "sint (word_of_int ?d :: int64) = ?d"
    using window_difference_bounds [of g] by (intro sint_word_of_int_64) simp_all
  then show ?thesis by (simp only: e sint_rshift6)
qed

lemma plain_energy_range:
  "8176 \<le> sint (plain_energy (signal g))" "sint (plain_energy (signal g)) \<le> 10391"
proof -
  have "(64 * 8176) div 64 \<le> window_sum g 50032 div 64"
    using window_sum_bounds(1) [of g 50032] by (intro zdiv_mono1) simp_all
  then show "8176 \<le> sint (plain_energy (signal g))"
    by (simp add: plain_energy_signal)
  have "window_sum g 50032 div 64 \<le> (64 * 10391) div 64"
    using window_sum_bounds(2) [of g 50032] by (intro zdiv_mono1) simp_all
  then show "sint (plain_energy (signal g)) \<le> 10391"
    by (simp add: plain_energy_signal)
qed

lemma sub_energy_range:
  "- 31 \<le> sint (sub_energy (signal g))" "sint (sub_energy (signal g)) \<le> 2215"
proof -
  have "(- 1984) div 64 \<le> (window_sum g 50032 - window_sum g 49032) div 64"
    using window_difference_bounds(1) [of g] by (intro zdiv_mono1) simp_all
  then show "- 31 \<le> sint (sub_energy (signal g))"
    by (simp add: sub_energy_signal)
  have "(window_sum g 50032 - window_sum g 49032) div 64 \<le> 141760 div 64"
    using window_difference_bounds(2) [of g] by (intro zdiv_mono1) simp_all
  then show "sint (sub_energy (signal g)) \<le> 2215"
    by (simp add: sub_energy_signal)
qed

lemma hist_incr_bump:
  assumes "length h = 16384" and "- 16384 \<le> sint i" and "sint i < 16384"
  shows "hist_incr h i = Inr (bump h i)" and "bin_of i < 16384"
  using assms by (auto simp: hist_incr_def bump_def bin_of_def Let_def)

lemma length_bump: "length (bump h i) = length h"
  by (simp add: bump_def)

lemma sum_list_bump:
  assumes "bin_of i < length h"
  shows "sum_list (bump h i) = sum_list h + 1"
  unfolding bump_def using assms by (rule sum_list_incr)

lemma h1_record_signal:
  assumes "length h = 16384"
  shows "h1_record (signal g) h = Inr (bump h (plain_energy (signal g)))"
    and "bin_of (plain_energy (signal g)) < 16384"
proof -
  have r: "- 16384 \<le> sint (plain_energy (signal g))" "sint (plain_energy (signal g)) < 16384"
    using plain_energy_range [of g] by linarith+
  show "h1_record (signal g) h = Inr (bump h (plain_energy (signal g)))"
    unfolding h1_record_def using assms r by (rule hist_incr_bump(1))
  show "bin_of (plain_energy (signal g)) < 16384"
    using assms r by (rule hist_incr_bump(2))
qed

lemma h2_record_signal:
  assumes "length h = 16384"
  shows "h2_record (signal g) h = Inr (bump h (sub_energy (signal g)))"
    and "bin_of (sub_energy (signal g)) < 16384"
proof -
  have r: "- 16384 \<le> sint (sub_energy (signal g))" "sint (sub_energy (signal g)) < 16384"
    using sub_energy_range [of g] by linarith+
  show "h2_record (signal g) h = Inr (bump h (sub_energy (signal g)))"
    unfolding h2_record_def using assms r by (rule hist_incr_bump(1))
  show "bin_of (sub_energy (signal g)) < 16384"
    using assms r by (rule hist_incr_bump(2))
qed

lemma shift_shift: "shift a (shift b g) = shift (b + a) g"
  by (simp add: shift_def add.assoc)

lemma length_accumulate: "length (accumulate E n g h) = length h"
  by (induction n arbitrary: g h) (simp_all add: length_bump)

lemma sum_list_accumulate:
  assumes "\<And>g. bin_of (E (signal g)) < 16384" and "length h = 16384"
  shows "sum_list (accumulate E n g h) = sum_list h + n"
  using assms(2)
proof (induction n arbitrary: g h)
  case 0
  then show ?case by simp
next
  case (Suc n)
  have b: "bin_of (E (signal g)) < length h" using assms(1) [of g] Suc.prems by simp
  have "sum_list (accumulate E n (shift tlen g) (bump h (E (signal g))))
        = sum_list (bump h (E (signal g))) + n"
    using Suc.prems by (intro Suc.IH) (simp add: length_bump)
  then show ?case using sum_list_bump [OF b] by simp
qed

lemma h1_loop_eq:
  assumes "length x = tlen" and "length h = 16384"
  shows "\<exists>x'. length x' = tlen
           \<and> h1_loop n x g h = Inr (x', shift (n * tlen) g, accumulate plain_energy n g h)"
  using assms
proof (induction n arbitrary: x g h)
  case 0
  then show ?case by (simp add: shift_def)
next
  case (Suc n)
  let ?h = "bump h (plain_energy (signal g))"
  have "length (signal g) = tlen" "length ?h = 16384"
    using Suc.prems by (simp_all add: length_signal length_bump)
  from Suc.IH [OF this, of "shift tlen g"]
  obtain x' where x': "length x' = tlen"
    and l: "h1_loop n (signal g) (shift tlen g) ?h
            = Inr (x', shift (n * tlen) (shift tlen g), accumulate plain_energy n (shift tlen g) ?h)"
    by blast
  have "h1_loop (Suc n) x g h = h1_loop n (signal g) (shift tlen g) ?h"
    by (simp add: synth_eq [OF Suc.prems(1)] h1_record_signal(1) [OF Suc.prems(2)])
  then show ?case using x' l by (simp add: shift_shift)
qed

lemma h2_loop_eq:
  assumes "length x = tlen" and "length h = 16384"
  shows "\<exists>x'. length x' = tlen
           \<and> h2_loop n x g h = Inr (x', shift (n * tlen) g, accumulate sub_energy n g h)"
  using assms
proof (induction n arbitrary: x g h)
  case 0
  then show ?case by (simp add: shift_def)
next
  case (Suc n)
  let ?h = "bump h (sub_energy (signal g))"
  have "length (signal g) = tlen" "length ?h = 16384"
    using Suc.prems by (simp_all add: length_signal length_bump)
  from Suc.IH [OF this, of "shift tlen g"]
  obtain x' where x': "length x' = tlen"
    and l: "h2_loop n (signal g) (shift tlen g) ?h
            = Inr (x', shift (n * tlen) (shift tlen g), accumulate sub_energy n (shift tlen g) ?h)"
    by blast
  have "h2_loop (Suc n) x g h = h2_loop n (signal g) (shift tlen g) ?h"
    by (simp add: synth_eq [OF Suc.prems(1)] h2_record_signal(1) [OF Suc.prems(2)])
  then show ?case using x' l by (simp add: shift_shift)
qed

lemma program_eq:
  "program g =
     Inr (accumulate plain_energy 300 (shift tlen g) (replicate 16384 0),
          accumulate sub_energy 300 (shift (301 * tlen) g) (replicate 16384 0))"
proof -
  let ?z = "replicate 16384 (0::nat)"
  let ?x0 = "map (\<lambda>k. word_of_int (pulse_int k) :: int64) [0..<tlen]"
  have n: "0 < tlen" by (simp add: tlen_def)
  have nz: "noise (length ?x0) (nlev * mvbin) g
            = Inr (map (\<lambda>k. word_of_int (noise_int g k)) [0..<tlen], shift tlen g)"
    using program_noise [OF n, of g] by simp
  have add: "np_add ?x0 (map (\<lambda>k. word_of_int (noise_int g k)) [0..<tlen])
             = Inr (map (\<lambda>k. word_of_int (pulse_int k) + word_of_int (noise_int g k)) [0..<tlen])"
    by (simp add: np_add_def map2_map_map)
  let ?x2 = "map (\<lambda>v. v + 8192)
               (map (\<lambda>k. word_of_int (pulse_int k) + word_of_int (noise_int g k) :: int64) [0..<tlen])"
  have lx: "length ?x2 = tlen" by simp
  have lz: "length ?z = 16384" by simp
  from h1_loop_eq [OF lx lz, of 300 "shift tlen g"]
  obtain x3 where x3: "length x3 = tlen"
    and l1: "h1_loop 300 ?x2 (shift tlen g) ?z
             = Inr (x3, shift (300 * tlen) (shift tlen g), accumulate plain_energy 300 (shift tlen g) ?z)"
    by blast
  from h2_loop_eq [OF x3 lz, of 300 "shift (300 * tlen) (shift tlen g)"]
  obtain x4 where
    l2: "h2_loop 300 x3 (shift (300 * tlen) (shift tlen g)) ?z
         = Inr (x4, shift (300 * tlen) (shift (300 * tlen) (shift tlen g)),
                accumulate sub_energy 300 (shift (300 * tlen) (shift tlen g)) ?z)"
    by blast
  have s: "shift (300 * tlen) (shift tlen g) = shift (301 * tlen) g"
    by (simp add: shift_shift)
  show ?thesis
    by (simp only: program_def program_pulse nz sum.case prod.case add Let_def l1 l2 [unfolded s] s)
qed

text \<open>
  C4. For every number \<open>N\<close> of trials and every random source, each histogram loop
  started on 16384 empty bins ends without error and the bin counts sum to \<open>N\<close>
  exactly: every plain-sum energy lies in \<open>[0, 16384)\<close>, every trial increments one bin
  by one, and no bin is decremented. The script's run of 300 trials gives two histograms
  of total 300.
\<close>

theorem histogram_conservation:
  assumes "length x = tlen"
  shows "(\<exists>x' g' h. h1_loop n x g (replicate 16384 0) = Inr (x', g', h)
            \<and> length h = 16384 \<and> sum_list h = n)
         \<and> (\<exists>x' g' h. h2_loop n x g (replicate 16384 0) = Inr (x', g', h)
            \<and> length h = 16384 \<and> sum_list h = n)
         \<and> (\<exists>h1 h2. program g = Inr (h1, h2) \<and> length h1 = 16384 \<and> length h2 = 16384
            \<and> sum_list h1 = 300 \<and> sum_list h2 = 300)"
proof -
  let ?z = "replicate 16384 (0::nat)"
  have lz: "length ?z = 16384" by simp
  have b1: "\<And>g. bin_of (plain_energy (signal g)) < 16384"
    using h1_record_signal(2) [OF lz] .
  have b2: "\<And>g. bin_of (sub_energy (signal g)) < 16384"
    using h2_record_signal(2) [OF lz] .
  have s1: "sum_list (accumulate plain_energy m g' ?z) = m" for m g'
    using sum_list_accumulate [of plain_energy ?z m g', OF b1 lz] by simp
  have s2: "sum_list (accumulate sub_energy m g' ?z) = m" for m g'
    using sum_list_accumulate [of sub_energy ?z m g', OF b2 lz] by simp
  have 1: "\<exists>x' g' h. h1_loop n x g ?z = Inr (x', g', h) \<and> length h = 16384 \<and> sum_list h = n"
    using h1_loop_eq [OF assms lz, of n g] s1 [of n g] by (auto simp: length_accumulate)
  have 2: "\<exists>x' g' h. h2_loop n x g ?z = Inr (x', g', h) \<and> length h = 16384 \<and> sum_list h = n"
    using h2_loop_eq [OF assms lz, of n g] s2 [of n g] by (auto simp: length_accumulate)
  have 3: "\<exists>h1 h2. program g = Inr (h1, h2) \<and> length h1 = 16384 \<and> length h2 = 16384
            \<and> sum_list h1 = 300 \<and> sum_list h2 = 300"
    using s1 [of 300 "shift tlen g"] s2 [of 300 "shift (301 * tlen) g"]
    by (simp add: program_eq length_accumulate)
  show ?thesis using 1 2 3 by blast
qed

theorem histogram_conservation_witness:
  "length (replicate 100000 (0::int64)) = tlen
   \<and> (\<exists>x' g' h. h1_loop 2 (replicate 100000 0) (\<lambda>k. 0) (replicate 16384 0) = Inr (x', g', h)
          \<and> length h = 16384 \<and> sum_list h = 2)
   \<and> (\<exists>x' g' h. h2_loop 2 (replicate 100000 0) (\<lambda>k. 0) (replicate 16384 0) = Inr (x', g', h)
          \<and> length h = 16384 \<and> sum_list h = 2)"
proof -
  have l: "length (replicate 100000 (0::int64)) = tlen" by (simp add: tlen_def)
  show ?thesis
    using histogram_conservation [OF l, of 2 "\<lambda>k. 0"] l by blast
qed

section \<open>The two loops and the paired run\<close>

lemma paired_loop_eq:
  assumes "length x = tlen" and "length h1 = 16384" and "length h2 = 16384"
  shows "\<exists>x'. length x' = tlen
           \<and> paired_loop n x g h1 h2
               = Inr (x', shift (n * tlen) g, accumulate plain_energy n g h1,
                      accumulate sub_energy n g h2)"
  using assms
proof (induction n arbitrary: x g h1 h2)
  case 0
  then show ?case by (simp add: shift_def)
next
  case (Suc n)
  let ?h1 = "bump h1 (plain_energy (signal g))"
  let ?h2 = "bump h2 (sub_energy (signal g))"
  have "length (signal g) = tlen" "length ?h1 = 16384" "length ?h2 = 16384"
    using Suc.prems by (simp_all add: length_signal length_bump)
  from Suc.IH [OF this, of "shift tlen g"]
  obtain x' where x': "length x' = tlen"
    and l: "paired_loop n (signal g) (shift tlen g) ?h1 ?h2
            = Inr (x', shift (n * tlen) (shift tlen g),
                   accumulate plain_energy n (shift tlen g) ?h1,
                   accumulate sub_energy n (shift tlen g) ?h2)"
    by blast
  have "paired_loop (Suc n) x g h1 h2 = paired_loop n (signal g) (shift tlen g) ?h1 ?h2"
    by (simp add: synth_eq [OF Suc.prems(1)] h1_record_signal(1) [OF Suc.prems(2)]
        h2_record_signal(1) [OF Suc.prems(3)])
  then show ?case using x' l by (simp add: shift_shift)
qed

lemma paired_program_eq:
  "paired_program g =
     Inr (accumulate plain_energy 300 (shift tlen g) (replicate 16384 0),
          accumulate sub_energy 300 (shift tlen g) (replicate 16384 0))"
proof -
  let ?z = "replicate 16384 (0::nat)"
  let ?x0 = "map (\<lambda>k. word_of_int (pulse_int k) :: int64) [0..<tlen]"
  have n: "0 < tlen" by (simp add: tlen_def)
  have nz: "noise (length ?x0) (nlev * mvbin) g
            = Inr (map (\<lambda>k. word_of_int (noise_int g k)) [0..<tlen], shift tlen g)"
    using program_noise [OF n, of g] by simp
  have add: "np_add ?x0 (map (\<lambda>k. word_of_int (noise_int g k)) [0..<tlen])
             = Inr (map (\<lambda>k. word_of_int (pulse_int k) + word_of_int (noise_int g k)) [0..<tlen])"
    by (simp add: np_add_def map2_map_map)
  let ?x2 = "map (\<lambda>v. v + 8192)
               (map (\<lambda>k. word_of_int (pulse_int k) + word_of_int (noise_int g k) :: int64) [0..<tlen])"
  have lx: "length ?x2 = tlen" by simp
  have lz: "length ?z = 16384" by simp
  from paired_loop_eq [OF lx lz lz, of 300 "shift tlen g"]
  obtain x3 where
    l1: "paired_loop 300 ?x2 (shift tlen g) ?z ?z
         = Inr (x3, shift (300 * tlen) (shift tlen g),
                accumulate plain_energy 300 (shift tlen g) ?z,
                accumulate sub_energy 300 (shift tlen g) ?z)"
    by blast
  show ?thesis
    by (simp only: paired_program_def program_pulse nz sum.case prod.case add Let_def l1)
qed

lemma accumulate_hit:
  assumes "\<And>j. j < n \<Longrightarrow> bin_of (E (signal (shift (j * tlen) g))) = c" and "c < length h"
  shows "accumulate E n g h ! c = h ! c + n"
  using assms
proof (induction n arbitrary: g h)
  case 0
  then show ?case by simp
next
  case (Suc n)
  have b0: "bin_of (E (signal g)) = c"
    using Suc.prems(1) [of 0] by (simp add: shift_def)
  have st: "bin_of (E (signal (shift (j * tlen) (shift tlen g)))) = c" if "j < n" for j
    using Suc.prems(1) [of "Suc j"] that by (simp add: shift_shift)
  have "accumulate E n (shift tlen g) (bump h (E (signal g))) ! c
        = bump h (E (signal g)) ! c + n"
    using st Suc.prems(2) by (intro Suc.IH) (simp_all add: length_bump)
  then show ?case using b0 Suc.prems(2) by (simp add: bump_def)
qed

lemma accumulate_miss:
  assumes "\<And>j. j < n \<Longrightarrow> bin_of (E (signal (shift (j * tlen) g))) \<noteq> c"
  shows "accumulate E n g h ! c = h ! c"
  using assms
proof (induction n arbitrary: g h)
  case 0
  then show ?case by simp
next
  case (Suc n)
  have b0: "bin_of (E (signal g)) \<noteq> c"
    using Suc.prems(1) [of 0] by (simp add: shift_def)
  have st: "bin_of (E (signal (shift (j * tlen) (shift tlen g)))) \<noteq> c" if "j < n" for j
    using Suc.prems(1) [of "Suc j"] that by (simp add: shift_shift)
  have "accumulate E n (shift tlen g) (bump h (E (signal g))) ! c
        = bump h (E (signal g)) ! c"
    using st by (intro Suc.IH) simp_all
  then show ?case using b0 by (simp add: bump_def)
qed

lemma window_sum_const_noise:
  assumes "\<And>k. a \<le> k \<Longrightarrow> k < a + 64 \<Longrightarrow> noise_int g k = c"
  shows "window_sum g a = sum_list (map pulse_int [a..<a + 64]) + 64 * c + 64 * 8192"
proof -
  have "map (\<lambda>k. pulse_int k + noise_int g k + 8192) [a..<a + 64]
        = map (\<lambda>k. pulse_int k + (c + 8192)) [a..<a + 64]"
    using assms by (intro map_cong) simp_all
  then have "window_sum g a = sum_list (map (\<lambda>k. pulse_int k + (c + 8192)) [a..<a + 64])"
    by (simp only: window_sum_def)
  also have "\<dots> = sum_list (map pulse_int [a..<a + 64]) + 64 * c + 64 * 8192"
    by (simp add: sum_list_addf sum_list_triv algebra_simps)
  finally show ?thesis .
qed

lemma prepulse_pulse_sum: "a + 64 \<le> 50000 \<Longrightarrow> sum_list (map pulse_int [a..<a + 64]) = 0"
proof -
  assume a: "a + 64 \<le> 50000"
  have "map pulse_int [a..<a + 64] = map (\<lambda>k. 0) [a..<a + 64]"
    using a by (intro map_cong) (simp_all add: pulse_int_before)
  then have "sum_list (map pulse_int [a..<a + 64]) = sum_list (map (\<lambda>k. 0::int) [a..<a + 64])"
    by (simp only:)
  also have "\<dots> = 0" by simp
  finally show ?thesis .
qed

lemma sub_energy_first_region:
  assumes "j < 300"
  shows "sint (sub_energy (signal (shift (j * tlen) (shift tlen gen_cex))))
         = sum_list (map pulse_int [50032..<50032 + 64]) div 64"
proof -
  let ?g = "shift (j * tlen) (shift tlen gen_cex)"
  define P where "P = sum_list (map pulse_int [50032..<50032 + 64])"
  have nz: "noise_int ?g k = - 16" if "k < 100000" for k
  proof -
    have "100000 + (j * 100000 + k) < 30100000" using assms that by simp
    then have "?g k = 0" by (simp add: shift_def tlen_def gen_cex_def)
    then show ?thesis by (simp add: noise_int_def)
  qed
  have w1: "window_sum ?g 50032 = P + 64 * (- 16) + 64 * 8192"
    unfolding P_def by (rule window_sum_const_noise) (simp add: nz)
  have w2: "window_sum ?g 49032 = sum_list (map pulse_int [49032..<49032 + 64]) + 64 * (- 16) + 64 * 8192"
    by (rule window_sum_const_noise) (simp add: nz)
  have p0: "sum_list (map pulse_int [49032..<49032 + 64]) = 0"
    by (rule prepulse_pulse_sum) simp
  have "window_sum ?g 50032 - window_sum ?g 49032 = P"
    unfolding w1 w2 p0 by linarith
  then show ?thesis unfolding P_def by (simp only: sub_energy_signal)
qed

lemma sub_energy_second_region:
  "sint (sub_energy (signal (shift (j * tlen) (shift (301 * tlen) gen_cex))))
   = (sum_list (map pulse_int [50032..<50032 + 64]) - 1984) div 64"
proof -
  let ?g = "shift (j * tlen) (shift (301 * tlen) gen_cex)"
  define P where "P = sum_list (map pulse_int [50032..<50032 + 64])"
  have g: "?g k = (if 49032 \<le> k \<and> k < 49096 then 31 else 0)" if "k < 100000" for k
  proof -
    have e: "301 * 100000 + (j * 100000 + k) = (301 + j) * 100000 + k" by simp
    have a: "?g k = gen_cex ((301 + j) * 100000 + k)"
      by (simp only: shift_def tlen_def e)
    have m: "((301 + j) * 100000 + k) mod 100000 = k"
      using that by (simp only: mod_mult_self3 mod_less)
    have "gen_cex ((301 + j) * 100000 + k) = (if 49032 \<le> k \<and> k < 49096 then 31 else 0)"
      unfolding gen_cex_def m by simp
    then show ?thesis by (simp only: a)
  qed
  have n1: "noise_int ?g k = - 16" if "50032 \<le> k" "k < 50032 + 64" for k
    using that g [of k] by (simp add: noise_int_def)
  have n2: "noise_int ?g k = 15" if "49032 \<le> k" "k < 49032 + 64" for k
    using that g [of k] by (simp add: noise_int_def)
  have w1: "window_sum ?g 50032 = P + 64 * (- 16) + 64 * 8192"
    unfolding P_def using n1 by (rule window_sum_const_noise)
  have w2: "window_sum ?g 49032 = sum_list (map pulse_int [49032..<49032 + 64]) + 64 * 15 + 64 * 8192"
    using n2 by (rule window_sum_const_noise)
  have p0: "sum_list (map pulse_int [49032..<49032 + 64]) = 0"
    by (rule prepulse_pulse_sum) simp
  have "window_sum ?g 50032 - window_sum ?g 49032 = P - 1984"
    unfolding w1 w2 p0 by linarith
  then show ?thesis unfolding P_def by (simp only: sub_energy_signal)
qed

lemma pulse_window_bounds:
  "0 \<le> sum_list (map pulse_int [50032..<50032 + 64])"
  "sum_list (map pulse_int [50032..<50032 + 64]) \<le> 64 * 2184"
proof -
  have "\<forall>k\<in>set [50032..<50032 + 64]. 0 \<le> pulse_int k \<and> pulse_int k \<le> 2184"
    using pulse_int_bounds by blast
  from sum_list_map_bounds [OF this]
  have "int (length [50032..<50032 + 64]) * 0 \<le> sum_list (map pulse_int [50032..<50032 + 64])"
    and "sum_list (map pulse_int [50032..<50032 + 64]) \<le> int (length [50032..<50032 + 64]) * 2184"
    by blast+
  then show "0 \<le> sum_list (map pulse_int [50032..<50032 + 64])"
    "sum_list (map pulse_int [50032..<50032 + 64]) \<le> 64 * 2184"
    by (simp_all only: length_upt add_diff_cancel_left' mult_zero_right of_nat_numeral)
qed


text \<open>
  C3, as amended. The two histograms are accumulated over separate trial sets. Every
  trial of either loop synthesizes its signal in the same way from the next 100000 draws
  of the random source. The plain-sum histogram records the plain-sum energies of the 300
  signals synthesized after the first signal of the script; the subtracted histogram
  records the subtracted energies of 300 further signals, synthesized from the draws
  that follow.
\<close>

theorem separate_trial_sets:
  "synth (signal g0) g = Inr (signal g, shift tlen g)
   \<and> program g =
       Inr (accumulate plain_energy 300 (shift tlen g) (replicate 16384 0),
            accumulate sub_energy 300 (shift (301 * tlen) g) (replicate 16384 0))
   \<and> paired_program g =
       Inr (accumulate plain_energy 300 (shift tlen g) (replicate 16384 0),
            accumulate sub_energy 300 (shift tlen g) (replicate 16384 0))"
  using synth_eq [OF length_signal, of g0 g] program_eq [of g] paired_program_eq [of g]
  by (intro conjI)

text \<open>
  For the source \<open>gen_cex\<close> the script's histograms are not those of a run that feeds
  each synthesized signal to both extractors.
\<close>

theorem same_trial_set_counterexample:
  "program gen_cex \<noteq> paired_program gen_cex"
proof -
  define P where "P = sum_list (map pulse_int [50032..<50032 + 64])"
  define b where "b = nat (P div 64)"
  let ?z = "replicate 16384 (0::nat)"
  have P: "0 \<le> P" "P \<le> 64 * 2184"
    unfolding P_def by (rule pulse_window_bounds)+
  have q0: "0 \<le> P div 64"
    using P(1) by (simp add: pos_imp_zdiv_nonneg_iff)
  have "P div 64 \<le> (64 * 2184) div 64"
    using P(2) by (intro zdiv_mono1) simp_all
  then have q1: "P div 64 \<le> 2184" by simp
  note q = q0 q1
  have b: "b < length ?z" unfolding b_def using q by simp
  have hit: "bin_of (sub_energy (signal (shift (j * tlen) (shift tlen gen_cex)))) = b"
    if "j < 300" for j
    unfolding bin_of_def sub_energy_first_region [OF that] P_def [symmetric] b_def
    using q by simp
  have miss: "bin_of (sub_energy (signal (shift (j * tlen) (shift (301 * tlen) gen_cex)))) \<noteq> b"
    for j
  proof -
    have "(P + (- 31) * 64) div 64 = - 31 + P div 64"
      by (rule div_mult_self1) simp
    then have d: "(P - 1984) div 64 = P div 64 - 31" by simp
    have "nat (if P div 64 - 31 < 0 then P div 64 - 31 + 16384 else P div 64 - 31)
          \<noteq> nat (P div 64)"
      using q by (cases "P div 64 - 31 < 0") simp_all
    then show ?thesis
      unfolding bin_of_def sub_energy_second_region P_def [symmetric] b_def d .
  qed
  have 1: "accumulate sub_energy 300 (shift tlen gen_cex) ?z ! b = 300"
    using accumulate_hit [of 300 sub_energy "shift tlen gen_cex" b ?z, OF hit b] b by simp
  have 2: "accumulate sub_energy 300 (shift (301 * tlen) gen_cex) ?z ! b = 0"
    using accumulate_miss [of 300 sub_energy "shift (301 * tlen) gen_cex" b ?z, OF miss] b by simp
  have "accumulate sub_energy 300 (shift (301 * tlen) gen_cex) ?z
        \<noteq> accumulate sub_energy 300 (shift tlen gen_cex) ?z"
  proof
    assume "accumulate sub_energy 300 (shift (301 * tlen) gen_cex) ?z
            = accumulate sub_energy 300 (shift tlen gen_cex) ?z"
    then have "(0::nat) = 300" using 1 2 by simp
    then show False by simp
  qed
  then show ?thesis by (simp add: program_eq paired_program_eq)
qed

end
